theory Spec2Isabelle
  imports Main "HOL-Library.Word" "HOL-Library.Multiset"
begin

section \<open>The GreenHydrogenCredit registry (contracts/GreenHydrogenCredit.sol)\<close>

text \<open>
  The contract is embedded as explicit state passing. A \<open>uint256\<close> is a 256-bit word, an
  \<open>address\<close> a 160-bit word, a Solidity \<open>mapping\<close> a total function whose default is the
  zero value of its range, a dynamic array a list. The contract is compiled with Solidity
  0.8.20, whose \<open>+\<close>, \<open>+=\<close> and \<open>++\<close> revert on overflow: every such operation is a
  checked addition that can fail. A reverted call returns \<open>Inl\<close> with the reason and leaves
  no new state. Array lengths and loop indices stay far below \<open>2^256\<close>, so \<open>push\<close> and the
  \<open>i++\<close> of the loops cannot overflow: arrays are lists, loops are recursion over them.
  \<open>msg.sender\<close> and \<open>block.timestamp\<close> are explicit arguments. Event
  emission does not touch storage and is left out. Struct fields carry the prefixes
  \<open>c_\<close> (Credit), \<open>a_\<close> (Auditor) and \<open>b_\<close> (ProductionBatch), since several structs
  share field names.
\<close>

type_synonym uint256 = "256 word"
type_synonym address = "160 word"

datatype CreditStatus = Active | Retired | Suspended

datatype VerificationStatus = Pending | Verified | Rejected

record Credit =
  c_id :: uint256
  c_owner :: address
  c_producer :: address
  c_producerName :: string
  c_amount :: uint256
  c_productionDate :: uint256
  c_renewableSource :: string
  c_location :: string
  c_carbonIntensity :: uint256
  c_verificationStatus :: VerificationStatus
  c_status :: CreditStatus
  c_certifier :: address
  c_certificationDate :: uint256
  c_metadata :: string
  c_isRetired :: bool
  c_retirementDate :: uint256
  c_retirementReason :: string

record Auditor =
  a_auditorAddress :: address
  a_name :: string
  a_accreditation :: string
  a_isActive :: bool
  a_verificationCount :: uint256
  a_lastVerification :: uint256

record ProductionBatch =
  b_batchId :: uint256
  b_producer :: address
  b_totalAmount :: uint256
  b_verificationCount :: uint256
  b_isVerified :: bool
  b_creditIds :: "uint256 list"

record contract =
  nextId :: uint256
  nextBatchId :: uint256
  credits :: "uint256 \<Rightarrow> Credit"
  productionBatches :: "uint256 \<Rightarrow> ProductionBatch"
  auditors :: "address \<Rightarrow> Auditor"
  isAuditor :: "address \<Rightarrow> bool"
  producerCredits :: "address \<Rightarrow> uint256 list"
  ownerCredits :: "address \<Rightarrow> uint256 list"
  regulator :: address
  certifier :: address

text \<open>One constructor per \<open>require\<close> message of the contract, and the arithmetic panic.\<close>

datatype error =
    OnlyRegulator
  | OnlyCertifier
  | OnlyActiveAuditor
  | CreditDoesNotExist
  | NotCreditOwner
  | CreditRetired
  | InvalidCertifierAddress
  | InvalidAuditorAddress
  | AuditorAlreadyRegistered
  | AuditorNotFound
  | InvalidRecipientAddress
  | InvalidProducerAddress
  | AmountNotPositive
  | CarbonIntensityTooHigh
  | ProductionDateInFuture
  | CreditAlreadyVerified
  | EmptyBatch
  | CreditProducerMismatch
  | CreditNotVerified
  | BatchDoesNotExist
  | BatchAlreadyVerified
  | CreditNotActive
  | ArithmeticPanic

subsection \<open>Zero values of storage\<close>

definition empty_credit :: Credit where
  "empty_credit = \<lparr> c_id = 0, c_owner = 0, c_producer = 0, c_producerName = [],
     c_amount = 0, c_productionDate = 0, c_renewableSource = [], c_location = [],
     c_carbonIntensity = 0, c_verificationStatus = Pending, c_status = Active,
     c_certifier = 0, c_certificationDate = 0, c_metadata = [], c_isRetired = False,
     c_retirementDate = 0, c_retirementReason = [] \<rparr>"

definition empty_auditor :: Auditor where
  "empty_auditor = \<lparr> a_auditorAddress = 0, a_name = [], a_accreditation = [],
     a_isActive = False, a_verificationCount = 0, a_lastVerification = 0 \<rparr>"

definition empty_batch :: ProductionBatch where
  "empty_batch = \<lparr> b_batchId = 0, b_producer = 0, b_totalAmount = 0,
     b_verificationCount = 0, b_isVerified = False, b_creditIds = [] \<rparr>"

subsection \<open>Constants\<close>

definition MAX_CARBON_INTENSITY :: uint256 where
  "MAX_CARBON_INTENSITY = 50"

definition MIN_VERIFICATION_COUNT :: uint256 where
  "MIN_VERIFICATION_COUNT = 2"

subsection \<open>Checked arithmetic\<close>

definition checked_add :: "uint256 \<Rightarrow> uint256 \<Rightarrow> error + uint256" where
  "checked_add a b =
     (if unat a + unat b < 2 ^ 256 then Inr (a + b) else Inl ArithmeticPanic)"

subsection \<open>Deployment\<close>

definition constructor :: "address \<Rightarrow> contract" where
  "constructor sender = \<lparr> nextId = 1, nextBatchId = 1,
     credits = (\<lambda>_. empty_credit), productionBatches = (\<lambda>_. empty_batch),
     auditors = (\<lambda>_. empty_auditor), isAuditor = (\<lambda>_. False),
     producerCredits = (\<lambda>_. []), ownerCredits = (\<lambda>_. []),
     regulator = sender, certifier = sender \<rparr>"

subsection \<open>Regulator functions\<close>

definition setCertifier :: "contract \<Rightarrow> address \<Rightarrow> address \<Rightarrow> error + contract" where
  "setCertifier s sender newCertifier =
     (if sender \<noteq> regulator s then Inl OnlyRegulator
      else if newCertifier = 0 then Inl InvalidCertifierAddress
      else Inr (s\<lparr>certifier := newCertifier\<rparr>))"

definition registerAuditor ::
  "contract \<Rightarrow> address \<Rightarrow> address \<Rightarrow> string \<Rightarrow> string \<Rightarrow> error + contract" where
  "registerAuditor s sender auditorAddress name accreditation =
     (if sender \<noteq> regulator s then Inl OnlyRegulator
      else if auditorAddress = 0 then Inl InvalidAuditorAddress
      else if isAuditor s auditorAddress then Inl AuditorAlreadyRegistered
      else Inr (s\<lparr>
        auditors := (auditors s)(auditorAddress :=
          \<lparr> a_auditorAddress = auditorAddress, a_name = name,
            a_accreditation = accreditation, a_isActive = True,
            a_verificationCount = 0, a_lastVerification = 0 \<rparr>),
        isAuditor := (isAuditor s)(auditorAddress := True)\<rparr>))"

definition deactivateAuditor :: "contract \<Rightarrow> address \<Rightarrow> address \<Rightarrow> error + contract" where
  "deactivateAuditor s sender auditorAddress =
     (if sender \<noteq> regulator s then Inl OnlyRegulator
      else if \<not> isAuditor s auditorAddress then Inl AuditorNotFound
      else Inr (s\<lparr>
        auditors := (auditors s)(auditorAddress :=
          (auditors s auditorAddress)\<lparr>a_isActive := False\<rparr>),
        isAuditor := (isAuditor s)(auditorAddress := False)\<rparr>))"

definition suspendCredit :: "contract \<Rightarrow> address \<Rightarrow> uint256 \<Rightarrow> string \<Rightarrow> error + contract" where
  "suspendCredit s sender i reason =
     (if sender \<noteq> regulator s then Inl OnlyRegulator
      else if c_id (credits s i) = 0 then Inl CreditDoesNotExist
      else Inr (s\<lparr>credits := (credits s)(i := (credits s i)\<lparr>c_status := Suspended\<rparr>)\<rparr>))"

subsection \<open>Certifier functions\<close>

definition issueCredit ::
  "contract \<Rightarrow> address \<Rightarrow> uint256 \<Rightarrow> address \<Rightarrow> address \<Rightarrow> string \<Rightarrow> uint256 \<Rightarrow> uint256 \<Rightarrow>
   string \<Rightarrow> string \<Rightarrow> uint256 \<Rightarrow> string \<Rightarrow> error + contract" where
  "issueCredit s sender timestamp to producer producerName amount productionDate
     renewableSource location carbonIntensity metadata =
     (if \<not> (sender = certifier s \<or> sender = regulator s) then Inl OnlyCertifier
      else if to = 0 then Inl InvalidRecipientAddress
      else if producer = 0 then Inl InvalidProducerAddress
      else if \<not> 0 < amount then Inl AmountNotPositive
      else if \<not> carbonIntensity \<le> MAX_CARBON_INTENSITY then Inl CarbonIntensityTooHigh
      else if \<not> productionDate \<le> timestamp then Inl ProductionDateInFuture
      else
        let i = nextId s;
            s1 = s\<lparr>credits := (credits s)(i :=
                   \<lparr> c_id = i, c_owner = to, c_producer = producer,
                     c_producerName = producerName, c_amount = amount,
                     c_productionDate = productionDate,
                     c_renewableSource = renewableSource, c_location = location,
                     c_carbonIntensity = carbonIntensity,
                     c_verificationStatus = Pending, c_status = Active,
                     c_certifier = sender, c_certificationDate = timestamp,
                     c_metadata = metadata, c_isRetired = False,
                     c_retirementDate = 0, c_retirementReason = [] \<rparr>)\<rparr>;
            s2 = s1\<lparr>producerCredits :=
                   (producerCredits s1)(producer := producerCredits s1 producer @ [i])\<rparr>;
            s3 = s2\<lparr>ownerCredits := (ownerCredits s2)(to := ownerCredits s2 to @ [i])\<rparr>
        in case checked_add i 1 of
             Inl e \<Rightarrow> Inl e
           | Inr n \<Rightarrow> Inr (s3\<lparr>nextId := n\<rparr>))"

subsection \<open>Auditor functions\<close>

definition onlyAuditor :: "contract \<Rightarrow> address \<Rightarrow> bool" where
  "onlyAuditor s sender \<longleftrightarrow> isAuditor s sender \<and> a_isActive (auditors s sender)"

definition verifyCredit ::
  "contract \<Rightarrow> address \<Rightarrow> uint256 \<Rightarrow> uint256 \<Rightarrow> VerificationStatus \<Rightarrow> string \<Rightarrow>
   error + contract" where
  "verifyCredit s sender timestamp i status verificationNotes =
     (if \<not> onlyAuditor s sender then Inl OnlyActiveAuditor
      else if c_id (credits s i) = 0 then Inl CreditDoesNotExist
      else if c_isRetired (credits s i) then Inl CreditRetired
      else if c_verificationStatus (credits s i) \<noteq> Pending then Inl CreditAlreadyVerified
      else
        let s1 = s\<lparr>credits :=
                   (credits s)(i := (credits s i)\<lparr>c_verificationStatus := status\<rparr>)\<rparr>
        in case checked_add (a_verificationCount (auditors s1 sender)) 1 of
             Inl e \<Rightarrow> Inl e
           | Inr n \<Rightarrow> Inr (s1\<lparr>auditors := (auditors s1)(sender :=
               (auditors s1 sender)\<lparr>a_verificationCount := n,
                  a_lastVerification := timestamp\<rparr>)\<rparr>))"

text \<open>
  The loop of \<open>createProductionBatch\<close>: for each listed id in order, the two \<open>require\<close>s
  and then the checked \<open>totalAmount += amount\<close>.
\<close>

fun batchTotal ::
  "contract \<Rightarrow> address \<Rightarrow> uint256 list \<Rightarrow> uint256 \<Rightarrow> error + uint256" where
  "batchTotal s producer [] totalAmount = Inr totalAmount"
| "batchTotal s producer (i # creditIds) totalAmount =
     (if c_producer (credits s i) \<noteq> producer then Inl CreditProducerMismatch
      else if c_verificationStatus (credits s i) \<noteq> Verified then Inl CreditNotVerified
      else case checked_add totalAmount (c_amount (credits s i)) of
             Inl e \<Rightarrow> Inl e
           | Inr t \<Rightarrow> batchTotal s producer creditIds t)"

definition createProductionBatch ::
  "contract \<Rightarrow> address \<Rightarrow> address \<Rightarrow> uint256 list \<Rightarrow> error + contract" where
  "createProductionBatch s sender producer creditIds =
     (if \<not> onlyAuditor s sender then Inl OnlyActiveAuditor
      else if producer = 0 then Inl InvalidProducerAddress
      else if \<not> 0 < length creditIds then Inl EmptyBatch
      else case batchTotal s producer creditIds 0 of
             Inl e \<Rightarrow> Inl e
           | Inr totalAmount \<Rightarrow>
               let b = nextBatchId s;
                   s1 = s\<lparr>productionBatches := (productionBatches s)(b :=
                          \<lparr> b_batchId = b, b_producer = producer,
                            b_totalAmount = totalAmount, b_verificationCount = 1,
                            b_isVerified = False, b_creditIds = creditIds \<rparr>)\<rparr>
               in case checked_add b 1 of
                    Inl e \<Rightarrow> Inl e
                  | Inr n \<Rightarrow> Inr (s1\<lparr>nextBatchId := n\<rparr>))"

definition verifyProductionBatch :: "contract \<Rightarrow> address \<Rightarrow> uint256 \<Rightarrow> error + contract" where
  "verifyProductionBatch s sender batchId =
     (if \<not> onlyAuditor s sender then Inl OnlyActiveAuditor
      else if b_batchId (productionBatches s batchId) = 0 then Inl BatchDoesNotExist
      else if b_isVerified (productionBatches s batchId) then Inl BatchAlreadyVerified
      else case checked_add (b_verificationCount (productionBatches s batchId)) 1 of
             Inl e \<Rightarrow> Inl e
           | Inr n \<Rightarrow>
               let s1 = s\<lparr>productionBatches := (productionBatches s)(batchId :=
                          (productionBatches s batchId)\<lparr>b_verificationCount := n\<rparr>)\<rparr>
               in if MIN_VERIFICATION_COUNT \<le> b_verificationCount (productionBatches s1 batchId)
                  then Inr (s1\<lparr>productionBatches := (productionBatches s1)(batchId :=
                          (productionBatches s1 batchId)\<lparr>b_isVerified := True\<rparr>)\<rparr>)
                  else Inr s1)"

subsection \<open>User functions\<close>

text \<open>
  \<open>_removeFromArray\<close>: the loop looks for the first index holding the value, overwrites
  it with the last element, pops the array and stops. \<open>removeFrom\<close> is the loop from
  index \<open>i\<close> on.
\<close>

function removeFrom :: "nat \<Rightarrow> uint256 list \<Rightarrow> uint256 \<Rightarrow> uint256 list" where
  "removeFrom i array v =
     (if i < length array
      then (if array ! i = v then butlast (array[i := array ! (length array - 1)])
            else removeFrom (i + 1) array v)
      else array)"
  by pat_completeness auto
termination
  by (relation "measure (\<lambda>(i, array, v). length array - i)") auto

declare removeFrom.simps [simp del]

definition removeFromArray :: "uint256 list \<Rightarrow> uint256 \<Rightarrow> uint256 list" where
  "removeFromArray array v = removeFrom 0 array v"

definition transferCredit :: "contract \<Rightarrow> address \<Rightarrow> uint256 \<Rightarrow> address \<Rightarrow> error + contract" where
  "transferCredit s sender i to =
     (if c_id (credits s i) = 0 then Inl CreditDoesNotExist
      else if sender \<noteq> c_owner (credits s i) then Inl NotCreditOwner
      else if c_isRetired (credits s i) then Inl CreditRetired
      else if to = 0 then Inl InvalidRecipientAddress
      else if c_status (credits s i) \<noteq> Active then Inl CreditNotActive
      else if c_verificationStatus (credits s i) \<noteq> Verified then Inl CreditNotVerified
      else
        let from = c_owner (credits s i);
            s1 = s\<lparr>credits := (credits s)(i := (credits s i)\<lparr>c_owner := to\<rparr>)\<rparr>;
            s2 = s1\<lparr>ownerCredits :=
                   (ownerCredits s1)(from := removeFromArray (ownerCredits s1 from) i)\<rparr>;
            s3 = s2\<lparr>ownerCredits := (ownerCredits s2)(to := ownerCredits s2 to @ [i])\<rparr>
        in Inr s3)"

definition retireCredit ::
  "contract \<Rightarrow> address \<Rightarrow> uint256 \<Rightarrow> uint256 \<Rightarrow> string \<Rightarrow> error + contract" where
  "retireCredit s sender timestamp i reason =
     (if c_id (credits s i) = 0 then Inl CreditDoesNotExist
      else if sender \<noteq> c_owner (credits s i) then Inl NotCreditOwner
      else if c_isRetired (credits s i) then Inl CreditRetired
      else if c_status (credits s i) \<noteq> Active then Inl CreditNotActive
      else if c_verificationStatus (credits s i) \<noteq> Verified then Inl CreditNotVerified
      else Inr (s\<lparr>credits := (credits s)(i := (credits s i)\<lparr>c_isRetired := True,
                  c_retirementDate := timestamp, c_retirementReason := reason,
                  c_status := Retired\<rparr>)\<rparr>))"

subsection \<open>View functions\<close>

definition getCredit :: "contract \<Rightarrow> uint256 \<Rightarrow> error + Credit" where
  "getCredit s i = (if c_id (credits s i) = 0 then Inl CreditDoesNotExist else Inr (credits s i))"

definition getProducerCredits :: "contract \<Rightarrow> address \<Rightarrow> uint256 list" where
  "getProducerCredits s producer = producerCredits s producer"

definition getOwnerCredits :: "contract \<Rightarrow> address \<Rightarrow> uint256 list" where
  "getOwnerCredits s owner = ownerCredits s owner"

definition getAuditor :: "contract \<Rightarrow> address \<Rightarrow> error + Auditor" where
  "getAuditor s auditorAddress =
     (if \<not> isAuditor s auditorAddress then Inl AuditorNotFound
      else Inr (auditors s auditorAddress))"

definition getProductionBatch :: "contract \<Rightarrow> uint256 \<Rightarrow> error + ProductionBatch" where
  "getProductionBatch s batchId =
     (if b_batchId (productionBatches s batchId) = 0 then Inl BatchDoesNotExist
      else Inr (productionBatches s batchId))"

text \<open>The loop of \<open>getTotalCreditsByProducer\<close>, with its checked \<open>total += amount\<close>
  (\<open>tot\<close> is the source's \<open>total\<close>).\<close>

fun totalLoop :: "contract \<Rightarrow> uint256 list \<Rightarrow> uint256 \<Rightarrow> error + uint256" where
  "totalLoop s [] tot = Inr tot"
| "totalLoop s (i # creditIds) tot =
     (if c_status (credits s i) = Active \<and> \<not> c_isRetired (credits s i)
      then case checked_add tot (c_amount (credits s i)) of
             Inl e \<Rightarrow> Inl e
           | Inr t \<Rightarrow> totalLoop s creditIds t
      else totalLoop s creditIds tot)"

definition getTotalCreditsByProducer :: "contract \<Rightarrow> address \<Rightarrow> error + uint256" where
  "getTotalCreditsByProducer s producer = totalLoop s (producerCredits s producer) 0"

subsection \<open>Transactions and reachable states\<close>

datatype call =
    SetCertifier address
  | RegisterAuditor address string string
  | DeactivateAuditor address
  | SuspendCredit uint256 string
  | IssueCredit address address string uint256 uint256 string string uint256 string
  | VerifyCredit uint256 VerificationStatus string
  | CreateProductionBatch address "uint256 list"
  | VerifyProductionBatch uint256
  | TransferCredit uint256 address
  | RetireCredit uint256 string

text \<open>A transaction is a call with its \<open>msg.sender\<close> and its \<open>block.timestamp\<close>.\<close>

fun exec :: "contract \<Rightarrow> address \<Rightarrow> uint256 \<Rightarrow> call \<Rightarrow> error + contract" where
  "exec s sender ts (SetCertifier a) = setCertifier s sender a"
| "exec s sender ts (RegisterAuditor a n acc) = registerAuditor s sender a n acc"
| "exec s sender ts (DeactivateAuditor a) = deactivateAuditor s sender a"
| "exec s sender ts (SuspendCredit i r) = suspendCredit s sender i r"
| "exec s sender ts (IssueCredit to p pn am pd rs loc ci md) =
     issueCredit s sender ts to p pn am pd rs loc ci md"
| "exec s sender ts (VerifyCredit i st notes) = verifyCredit s sender ts i st notes"
| "exec s sender ts (CreateProductionBatch p ids) = createProductionBatch s sender p ids"
| "exec s sender ts (VerifyProductionBatch b) = verifyProductionBatch s sender b"
| "exec s sender ts (TransferCredit i to) = transferCredit s sender i to"
| "exec s sender ts (RetireCredit i r) = retireCredit s sender ts i r"

text \<open>The store after a transaction: a reverted transaction leaves it as it was.\<close>

definition step :: "contract \<Rightarrow> address \<times> uint256 \<times> call \<Rightarrow> contract" where
  "step s tx = (case tx of (sender, ts, c) \<Rightarrow>
     (case exec s sender ts c of Inl e \<Rightarrow> s | Inr s' \<Rightarrow> s'))"

definition run :: "contract \<Rightarrow> (address \<times> uint256 \<times> call) list \<Rightarrow> contract" where
  "run s txs = foldl step s txs"

inductive reachable :: "contract \<Rightarrow> bool" where
  reachable_init: "reachable (constructor deployer)"
| reachable_step: "reachable s \<Longrightarrow> exec s sender ts c = Inr s' \<Longrightarrow> reachable s'"

subsection \<open>Invariants of the reachable states\<close>

text \<open>The identifiers handed out so far: \<open>1, ..., nextId - 1\<close>, in issuing order.\<close>

definition issued_ids :: "contract \<Rightarrow> uint256 list" where
  "issued_ids s = map of_nat [1..<unat (nextId s)]"

text \<open>
  A credit exists (its \<open>id\<close> field is not 0) exactly at the keys \<open>1, ..., nextId - 1\<close>,
  where its \<open>id\<close> field is the key; every other slot is untouched storage.
\<close>

definition inv_ids :: "contract \<Rightarrow> bool" where
  "inv_ids s \<longleftrightarrow> 0 < nextId s \<and>
     (\<forall>i. if 0 < i \<and> i < nextId s then c_id (credits s i) = i
          else credits s i = empty_credit)"

definition inv_retired :: "contract \<Rightarrow> bool" where
  "inv_retired s \<longleftrightarrow>
     (\<forall>i. (c_status (credits s i) = Retired \<longrightarrow> c_isRetired (credits s i)) \<and>
          (c_isRetired (credits s i) \<longrightarrow> c_status (credits s i) \<noteq> Active))"

definition inv_owner :: "contract \<Rightarrow> bool" where
  "inv_owner s \<longleftrightarrow>
     (\<forall>a i. count_list (ownerCredits s a) i =
        (if c_id (credits s i) \<noteq> 0 \<and> c_owner (credits s i) = a then 1 else 0))"

definition inv_producer :: "contract \<Rightarrow> bool" where
  "inv_producer s \<longleftrightarrow>
     (\<forall>p. producerCredits s p = filter (\<lambda>i. c_producer (credits s i) = p) (issued_ids s))"

text \<open>The zero address is never a registered auditor.\<close>

definition inv_auditor :: "contract \<Rightarrow> bool" where
  "inv_auditor s \<longleftrightarrow> \<not> isAuditor s 0"

text \<open>A batch that exists or is verified lies below the batch counter.\<close>

definition inv_batches :: "contract \<Rightarrow> bool" where
  "inv_batches s \<longleftrightarrow>
     (\<forall>b. b_batchId (productionBatches s b) \<noteq> 0 \<or> b_isVerified (productionBatches s b)
        \<longrightarrow> b < nextBatchId s)"

subsection \<open>Sums of amounts\<close>

text \<open>What the loop of \<open>getTotalCreditsByProducer\<close> adds up over a list of ids.\<close>

definition active_amounts :: "contract \<Rightarrow> uint256 list \<Rightarrow> nat" where
  "active_amounts s ids = sum_list (map (\<lambda>i. unat (c_amount (credits s i)))
     (filter (\<lambda>i. c_status (credits s i) = Active \<and> \<not> c_isRetired (credits s i)) ids))"

text \<open>
  The sum of the claim, in its words: over all existing credits with the given producer,
  lifecycle status Active and \<open>isRetired\<close> false, the amounts added up as natural numbers.
\<close>

definition active_total :: "contract \<Rightarrow> address \<Rightarrow> nat" where
  "active_total s p =
     (\<Sum>i | c_id (credits s i) \<noteq> 0 \<and> c_producer (credits s i) = p \<and>
            c_status (credits s i) = Active \<and> \<not> c_isRetired (credits s i).
        unat (c_amount (credits s i)))"

subsection \<open>Example runs\<close>

text \<open>
  Deployer 1 is regulator and certifier, 2 is an auditor, 3 produces and owns credit 1
  (1000 units) and credit 2 (500 units); then credit 1 is verified, later retired by its
  owner, and at last suspended by the regulator. In \<open>demo_huge\<close> both credits hold
  \<open>2^255\<close> units.
\<close>

definition demo_txs :: "(address \<times> uint256 \<times> call) list" where
  "demo_txs =
     [(1, 100, RegisterAuditor 2 ''A'' ''ISO''),
      (1, 100, IssueCredit 3 3 ''P'' 1000 90 ''solar'' ''CA'' 25 ''m''),
      (1, 100, IssueCredit 3 3 ''P'' 500 90 ''wind'' ''TX'' 30 ''m'')]"

definition demo_issued :: contract where
  "demo_issued = run (constructor 1) demo_txs"

definition demo_verified :: contract where
  "demo_verified = run demo_issued [(2, 110, VerifyCredit 1 Verified ''ok'')]"

definition demo_retired :: contract where
  "demo_retired = run demo_verified [(3, 120, RetireCredit 1 ''offset'')]"

definition demo_suspended :: contract where
  "demo_suspended = run demo_retired [(1, 130, SuspendCredit 1 ''audit'')]"

definition demo_huge :: contract where
  "demo_huge = run (constructor 1)
     [(1, 100, RegisterAuditor 2 ''A'' ''ISO''),
      (1, 100, IssueCredit 3 3 ''P'' (2 ^ 255) 90 ''solar'' ''CA'' 25 ''m''),
      (1, 100, IssueCredit 3 3 ''P'' (2 ^ 255) 90 ''wind'' ''TX'' 30 ''m''),
      (2, 110, VerifyCredit 1 Verified ''ok'')]"

text \<open>
  Further runs: auditor 2 is deactivated; auditor 2 creates a batch of credit 1 and
  verifies it itself; four issuing attempts of which the second (amount 0) and the third
  (caller 7 is no certifier) fail; credit 1 is transferred to its own owner, then to 5,
  credit 2 is suspended and credit 1 retired by 5.
\<close>

definition demo_deactivated :: contract where
  "demo_deactivated = run demo_verified [(1, 120, DeactivateAuditor 2)]"

definition demo_batch :: contract where
  "demo_batch = run demo_verified [(2, 120, CreateProductionBatch 3 [1])]"

definition demo_self_verified :: contract where
  "demo_self_verified = run demo_batch [(2, 130, VerifyProductionBatch 1)]"

definition demo_issue_attempts :: contract where
  "demo_issue_attempts = run (constructor 1)
     [(1, 100, IssueCredit 3 3 ''P'' 1000 90 ''solar'' ''CA'' 25 ''m''),
      (1, 100, IssueCredit 4 3 ''P'' 0 90 ''solar'' ''CA'' 25 ''m''),
      (7, 100, IssueCredit 4 3 ''P'' 10 90 ''solar'' ''CA'' 25 ''m''),
      (1, 100, IssueCredit 4 3 ''P'' 500 90 ''wind'' ''TX'' 50 ''m'')]"

definition demo_transferred :: contract where
  "demo_transferred = run demo_verified
     [(3, 120, TransferCredit 1 3),
      (3, 130, TransferCredit 1 5),
      (1, 140, SuspendCredit 2 ''audit''),
      (5, 150, RetireCredit 1 ''offset'')]"

section \<open>Basic facts\<close>

subsection \<open>Checked arithmetic on 256-bit words\<close>

lemma checked_add_Inr:
  "checked_add a b = Inr c \<longleftrightarrow> unat a + unat b < 2 ^ 256 \<and> c = a + b"
  by (auto simp: checked_add_def)

lemma checked_add_Inl:
  "checked_add a b = Inl e \<longleftrightarrow> \<not> unat a + unat b < 2 ^ 256 \<and> e = ArithmeticPanic"
  by (auto simp: checked_add_def)

lemma unat_succ: "unat (n::uint256) + 1 < 2 ^ 256 \<Longrightarrow> unat (n + 1) = unat n + 1"
  by (simp add: unat_word_ariths)

lemma unat_plus: "unat (a::uint256) + unat b < 2 ^ 256 \<Longrightarrow> unat (a + b) = unat a + unat b"
  by (simp add: unat_word_ariths)

lemma less_succ_iff:
  "unat (n::uint256) + 1 < 2 ^ 256 \<Longrightarrow> i < n + 1 \<longleftrightarrow> i < n \<or> i = n"
  by (auto simp: word_less_nat_alt unat_succ word_unat_eq_iff)

lemma succ_pos: "unat (n::uint256) + 1 < 2 ^ 256 \<Longrightarrow> 0 < n + 1"
  by (simp add: word_less_nat_alt unat_succ)

subsection \<open>What a successful call has checked and done\<close>

lemma issueCredit_Inr:
  assumes "issueCredit s sender ts to p pn am pd rs loc ci md = Inr s'"
  shows "(sender = certifier s \<or> sender = regulator s) \<and> to \<noteq> 0 \<and> p \<noteq> 0 \<and> 0 < am \<and>
         ci \<le> MAX_CARBON_INTENSITY \<and> pd \<le> ts \<and> unat (nextId s) + 1 < 2 ^ 256 \<and>
         s' = s\<lparr>credits := (credits s)(nextId s :=
                   \<lparr> c_id = nextId s, c_owner = to, c_producer = p,
                     c_producerName = pn, c_amount = am, c_productionDate = pd,
                     c_renewableSource = rs, c_location = loc, c_carbonIntensity = ci,
                     c_verificationStatus = Pending, c_status = Active,
                     c_certifier = sender, c_certificationDate = ts,
                     c_metadata = md, c_isRetired = False,
                     c_retirementDate = 0, c_retirementReason = [] \<rparr>),
               producerCredits := (producerCredits s)(p := producerCredits s p @ [nextId s]),
               ownerCredits := (ownerCredits s)(to := ownerCredits s to @ [nextId s]),
               nextId := nextId s + 1\<rparr>"
  using assms
  by (simp add: issueCredit_def Let_def checked_add_def split: if_splits)

lemma verifyCredit_Inr:
  assumes "verifyCredit s sender ts i st notes = Inr s'"
  shows "onlyAuditor s sender \<and> c_id (credits s i) \<noteq> 0 \<and> \<not> c_isRetired (credits s i) \<and>
         c_verificationStatus (credits s i) = Pending \<and>
         s' = s\<lparr>credits := (credits s)(i := (credits s i)\<lparr>c_verificationStatus := st\<rparr>),
               auditors := (auditors s)(sender := (auditors s sender)
                 \<lparr>a_verificationCount := a_verificationCount (auditors s sender) + 1,
                  a_lastVerification := ts\<rparr>)\<rparr>"
  using assms
  by (simp add: verifyCredit_def Let_def checked_add_def split: if_splits)

lemma transferCredit_Inr:
  assumes "transferCredit s sender i to = Inr s'"
  shows "c_id (credits s i) \<noteq> 0 \<and> sender = c_owner (credits s i) \<and>
         \<not> c_isRetired (credits s i) \<and> to \<noteq> 0 \<and> c_status (credits s i) = Active \<and>
         c_verificationStatus (credits s i) = Verified \<and>
         s' = s\<lparr>credits := (credits s)(i := (credits s i)\<lparr>c_owner := to\<rparr>),
               ownerCredits :=
                 (let oc = (ownerCredits s)(sender := removeFromArray (ownerCredits s sender) i)
                  in oc(to := oc to @ [i]))\<rparr>"
  using assms
  by (simp add: transferCredit_def Let_def split: if_splits)

lemma retireCredit_Inr:
  assumes "retireCredit s sender ts i reason = Inr s'"
  shows "c_id (credits s i) \<noteq> 0 \<and> sender = c_owner (credits s i) \<and>
         \<not> c_isRetired (credits s i) \<and> c_status (credits s i) = Active \<and>
         c_verificationStatus (credits s i) = Verified \<and>
         s' = s\<lparr>credits := (credits s)(i := (credits s i)\<lparr>c_isRetired := True,
                  c_retirementDate := ts, c_retirementReason := reason,
                  c_status := Retired\<rparr>)\<rparr>"
  using assms
  by (simp add: retireCredit_def split: if_splits)

lemma suspendCredit_Inr:
  assumes "suspendCredit s sender i reason = Inr s'"
  shows "sender = regulator s \<and> c_id (credits s i) \<noteq> 0 \<and>
         s' = s\<lparr>credits := (credits s)(i := (credits s i)\<lparr>c_status := Suspended\<rparr>)\<rparr>"
  using assms
  by (simp add: suspendCredit_def split: if_splits)

lemma setCertifier_Inr:
  assumes "setCertifier s sender a = Inr s'"
  shows "sender = regulator s \<and> a \<noteq> 0 \<and> s' = s\<lparr>certifier := a\<rparr>"
  using assms
  by (simp add: setCertifier_def split: if_splits)

lemma registerAuditor_Inr:
  assumes "registerAuditor s sender a n acc = Inr s'"
  shows "sender = regulator s \<and> a \<noteq> 0 \<and> \<not> isAuditor s a \<and>
         s' = s\<lparr>auditors := (auditors s)(a :=
                  \<lparr> a_auditorAddress = a, a_name = n, a_accreditation = acc,
                    a_isActive = True, a_verificationCount = 0, a_lastVerification = 0 \<rparr>),
                isAuditor := (isAuditor s)(a := True)\<rparr>"
  using assms
  by (simp add: registerAuditor_def split: if_splits)

lemma deactivateAuditor_Inr:
  assumes "deactivateAuditor s sender a = Inr s'"
  shows "sender = regulator s \<and> isAuditor s a \<and>
         s' = s\<lparr>auditors := (auditors s)(a := (auditors s a)\<lparr>a_isActive := False\<rparr>),
                isAuditor := (isAuditor s)(a := False)\<rparr>"
  using assms
  by (simp add: deactivateAuditor_def split: if_splits)

lemma createProductionBatch_Inr:
  assumes "createProductionBatch s sender p ids = Inr s'"
  shows "onlyAuditor s sender \<and> p \<noteq> 0 \<and> ids \<noteq> [] \<and>
         (\<exists>t. batchTotal s p ids 0 = Inr t \<and> unat (nextBatchId s) + 1 < 2 ^ 256 \<and>
           s' = s\<lparr>productionBatches := (productionBatches s)(nextBatchId s :=
                    \<lparr> b_batchId = nextBatchId s, b_producer = p, b_totalAmount = t,
                      b_verificationCount = 1, b_isVerified = False, b_creditIds = ids \<rparr>),
                  nextBatchId := nextBatchId s + 1\<rparr>)"
  using assms
  by (simp add: createProductionBatch_def Let_def checked_add_def split: if_splits sum.splits)

lemma verifyProductionBatch_Inr:
  assumes "verifyProductionBatch s sender b = Inr s'"
  shows "onlyAuditor s sender \<and> b_batchId (productionBatches s b) \<noteq> 0 \<and>
         \<not> b_isVerified (productionBatches s b) \<and>
         unat (b_verificationCount (productionBatches s b)) + 1 < 2 ^ 256 \<and>
         s' = s\<lparr>productionBatches := (productionBatches s)(b :=
                  (if MIN_VERIFICATION_COUNT \<le> b_verificationCount (productionBatches s b) + 1
                   then (productionBatches s b)\<lparr>
                     b_verificationCount := b_verificationCount (productionBatches s b) + 1,
                     b_isVerified := True\<rparr>
                   else (productionBatches s b)\<lparr>
                     b_verificationCount :=
                       b_verificationCount (productionBatches s b) + 1\<rparr>))\<rparr>"
  using assms
  by (auto simp add: verifyProductionBatch_def Let_def checked_add_def split: if_splits)

subsection \<open>Swap-and-pop removal\<close>

lemma swap_pop_mset:
  assumes "i < length xs"
  shows "mset (butlast (xs[i := xs ! (length xs - 1)])) = mset xs - {#xs ! i#}"
proof -
  from assms have "xs \<noteq> []" by auto
  then obtain ys z where xs: "xs = ys @ [z]" by (metis rev_exhaust)
  show ?thesis
  proof (cases "i < length ys")
    case True
    then have "butlast (xs[i := xs ! (length xs - 1)]) = ys[i := z]"
      by (simp add: xs list_update_append)
    moreover have "mset (ys[i := z]) = add_mset z (mset ys - {#ys ! i#})"
      using True by (simp add: mset_update)
    moreover have "ys ! i \<in># mset ys" using True by simp
    ultimately show ?thesis using True by (simp add: xs nth_append)
  next
    case False
    with assms have "i = length ys" by (simp add: xs)
    then show ?thesis by (simp add: xs)
  qed
qed

lemma removeFrom_mset:
  "mset (removeFrom i xs v) = (if v \<in> set (drop i xs) then mset xs - {#v#} else mset xs)"
proof (induction i xs v rule: removeFrom.induct)
  case (1 i array v)
  show ?case
  proof (cases "i < length array")
    case True
    then have d: "drop i array = array ! i # drop (Suc i) array"
      by (simp add: Cons_nth_drop_Suc)
    show ?thesis
    proof (cases "array ! i = v")
      case True
      with \<open>i < length array\<close> d swap_pop_mset [of i array] show ?thesis
        by (subst removeFrom.simps) simp
    next
      case False
      with \<open>i < length array\<close> d "1.IH" show ?thesis
        by (subst removeFrom.simps) auto
    qed
  next
    case False
    then show ?thesis by (subst removeFrom.simps) simp
  qed
qed

lemma removeFromArray_mset:
  "mset (removeFromArray xs v) = mset xs - {#v#}"
  by (simp add: removeFromArray_def removeFrom_mset diff_single_trivial)

lemma count_list_removeFromArray:
  "count_list (removeFromArray xs v) j =
     (if j = v then count_list xs v - 1 else count_list xs j)"
proof -
  have "count (mset (removeFromArray xs v)) j = count (mset xs - {#v#}) j"
    by (simp add: removeFromArray_mset)
  then show ?thesis by (simp add: count_mset split: if_splits)
qed

subsection \<open>The invariants hold in every reachable state\<close>

lemma exists_in_range:
  "inv_ids s \<Longrightarrow> c_id (credits s i) \<noteq> 0 \<Longrightarrow> 0 < i \<and> i < nextId s"
  unfolding inv_ids_def by (metis (full_types) Credit.select_convs(1) empty_credit_def)

lemma inv_ids_init: "inv_ids (constructor d)"
  by (simp add: inv_ids_def constructor_def)

lemma inv_ids_credit_update:
  assumes "inv_ids s" and "c_id (credits s i) \<noteq> 0" and "c_id c' = c_id (credits s i)"
    and "nextId s' = nextId s" and "credits s' = (credits s)(i := c')"
  shows "inv_ids s'"
proof -
  from assms(1,2) have "0 < i \<and> i < nextId s" by (rule exists_in_range)
  with assms show ?thesis by (auto simp: inv_ids_def)
qed

lemma inv_ids_same:
  assumes "inv_ids s" and "nextId s' = nextId s" and "credits s' = credits s"
  shows "inv_ids s'"
  using assms by (simp add: inv_ids_def)

lemma inv_ids_issue:
  assumes "inv_ids s" and "issueCredit s sender ts to p pn am pd rs loc ci md = Inr s'"
  shows "inv_ids s'"
proof -
  note f = issueCredit_Inr [OF assms(2)]
  then have b: "unat (nextId s) + 1 < 2 ^ 256" by simp
  from assms(1) have pos: "0 < nextId s" by (simp add: inv_ids_def)
  show ?thesis
    using assms(1) pos f
    by (auto simp: inv_ids_def less_succ_iff [OF b] succ_pos [OF b])
qed

lemma inv_ids_step:
  assumes "inv_ids s" and "exec s sender ts c = Inr s'"
  shows "inv_ids s'"
proof (cases c)
  case (SetCertifier a)
  with assms show ?thesis by (auto dest!: setCertifier_Inr intro: inv_ids_same)
next
  case (RegisterAuditor a n acc)
  with assms show ?thesis by (auto dest!: registerAuditor_Inr intro: inv_ids_same)
next
  case (DeactivateAuditor a)
  with assms show ?thesis by (auto dest!: deactivateAuditor_Inr intro: inv_ids_same)
next
  case (SuspendCredit i r)
  with assms(2) have "suspendCredit s sender i r = Inr s'" by simp
  from suspendCredit_Inr [OF this] show ?thesis
    by (intro inv_ids_credit_update [OF assms(1), where i = i and c' = "credits s' i"]) auto
next
  case (IssueCredit to p pn am pd rs loc ci md)
  with assms show ?thesis by (auto intro: inv_ids_issue)
next
  case (VerifyCredit i st vn)
  with assms(2) have "verifyCredit s sender ts i st vn = Inr s'" by simp
  from verifyCredit_Inr [OF this] show ?thesis
    by (intro inv_ids_credit_update [OF assms(1), where i = i and c' = "credits s' i"]) auto
next
  case (CreateProductionBatch p ids)
  with assms show ?thesis by (auto dest!: createProductionBatch_Inr intro: inv_ids_same)
next
  case (VerifyProductionBatch b)
  with assms show ?thesis by (auto dest!: verifyProductionBatch_Inr intro: inv_ids_same)
next
  case (TransferCredit i to)
  with assms(2) have "transferCredit s sender i to = Inr s'" by simp
  from transferCredit_Inr [OF this] show ?thesis
    by (intro inv_ids_credit_update [OF assms(1), where i = i and c' = "credits s' i"]) auto
next
  case (RetireCredit i r)
  with assms(2) have "retireCredit s sender ts i r = Inr s'" by simp
  from retireCredit_Inr [OF this] show ?thesis
    by (intro inv_ids_credit_update [OF assms(1), where i = i and c' = "credits s' i"]) auto
qed

lemma reachable_inv_ids: "reachable s \<Longrightarrow> inv_ids s"
  by (induction rule: reachable.induct) (auto intro: inv_ids_init inv_ids_step)

lemma set_issued_ids: "i \<in> set (issued_ids s) \<longleftrightarrow> 0 < i \<and> i < nextId s"
proof
  assume "i \<in> set (issued_ids s)"
  then obtain k where k: "1 \<le> k" "k < unat (nextId s)" "i = of_nat k"
    by (auto simp: issued_ids_def)
  have "unat (nextId s) < 2 ^ 256" using unsigned_less [of "nextId s"] by simp
  with k have "unat i = k" by (simp add: unat_of_nat)
  with k show "0 < i \<and> i < nextId s" by (simp add: word_less_nat_alt)
next
  assume "0 < i \<and> i < nextId s"
  then have "1 \<le> unat i" "unat i < unat (nextId s)" by (simp_all add: word_less_nat_alt)
  moreover have "i = of_nat (unat i)" by simp
  ultimately show "i \<in> set (issued_ids s)" unfolding issued_ids_def
    by (metis atLeastLessThan_iff image_eqI list.set_map set_upt)
qed

lemma issued_ids_succ:
  assumes "nextId s' = nextId s + 1" and "unat (nextId s) + 1 < 2 ^ 256" and "0 < nextId s"
  shows "issued_ids s' = issued_ids s @ [nextId s]"
proof -
  have "unat (nextId s') = Suc (unat (nextId s))" using assms by (simp add: unat_succ)
  moreover have "1 \<le> unat (nextId s)" using assms(3) by (simp add: word_less_nat_alt)
  ultimately show ?thesis by (simp add: issued_ids_def)
qed

lemma inv_retired_init: "inv_retired (constructor d)"
  by (simp add: inv_retired_def constructor_def empty_credit_def)

lemma inv_retired_step:
  assumes "inv_retired s" and "exec s sender ts c = Inr s'"
  shows "inv_retired s'"
proof (cases c)
  case (SetCertifier a)
  with assms show ?thesis by (auto dest!: setCertifier_Inr simp: inv_retired_def split: if_splits)
next
  case (RegisterAuditor a n acc)
  with assms show ?thesis by (auto dest!: registerAuditor_Inr simp: inv_retired_def split: if_splits)
next
  case (DeactivateAuditor a)
  with assms show ?thesis by (auto dest!: deactivateAuditor_Inr simp: inv_retired_def split: if_splits)
next
  case (SuspendCredit i r)
  with assms show ?thesis by (auto dest!: suspendCredit_Inr simp: inv_retired_def split: if_splits)
next
  case (IssueCredit to p pn am pd rs loc ci md)
  with assms show ?thesis by (auto dest!: issueCredit_Inr simp: inv_retired_def split: if_splits)
next
  case (VerifyCredit i st vn)
  with assms show ?thesis by (auto dest!: verifyCredit_Inr simp: inv_retired_def split: if_splits)
next
  case (CreateProductionBatch p ids)
  with assms show ?thesis by (auto dest!: createProductionBatch_Inr simp: inv_retired_def split: if_splits)
next
  case (VerifyProductionBatch b)
  with assms show ?thesis by (auto dest!: verifyProductionBatch_Inr simp: inv_retired_def split: if_splits)
next
  case (TransferCredit i to)
  with assms show ?thesis by (auto dest!: transferCredit_Inr simp: inv_retired_def split: if_splits)
next
  case (RetireCredit i r)
  with assms show ?thesis by (auto dest!: retireCredit_Inr simp: inv_retired_def split: if_splits)
qed

lemma reachable_inv_retired: "reachable s \<Longrightarrow> inv_retired s"
  by (induction rule: reachable.induct) (auto intro: inv_retired_init inv_retired_step)

lemma inv_owner_init: "inv_owner (constructor d)"
  by (simp add: inv_owner_def constructor_def empty_credit_def)

lemma inv_owner_same:
  assumes "inv_owner s" and "ownerCredits s' = ownerCredits s"
    and "\<And>i. c_id (credits s' i) = c_id (credits s i)"
    and "\<And>i. c_owner (credits s' i) = c_owner (credits s i)"
  shows "inv_owner s'"
  using assms by (simp add: inv_owner_def)

lemma inv_owner_issue:
  assumes "inv_owner s" and "inv_ids s"
    and "issueCredit s sender ts to p pn am pd rs loc ci md = Inr s'"
  shows "inv_owner s'"
proof -
  note f = issueCredit_Inr [OF assms(3)]
  from assms(2) have fresh: "c_id (credits s (nextId s)) = 0"
    using exists_in_range by blast
  from assms(2) have pos: "nextId s \<noteq> 0" by (auto simp: inv_ids_def)
  have cnt: "count_list (ownerCredits s a) (nextId s) = 0" for a
    using assms(1) fresh by (simp add: inv_owner_def)
  show ?thesis
    unfolding inv_owner_def
  proof (intro allI)
    fix a i
    show "count_list (ownerCredits s' a) i =
      (if c_id (credits s' i) \<noteq> 0 \<and> c_owner (credits s' i) = a then 1 else 0)"
    proof (cases "i = nextId s")
      case True
      then show ?thesis using f cnt [of a] pos by auto
    next
      case False
      then show ?thesis using f assms(1) by (auto simp: inv_owner_def)
    qed
  qed
qed

lemma inv_owner_transfer:
  assumes "inv_owner s" and "transferCredit s sender i to = Inr s'"
  shows "inv_owner s'"
proof -
  note f = transferCredit_Inr [OF assms(2)]
  have c1: "count_list (ownerCredits s sender) i = 1"
    using assms(1) f by (simp add: inv_owner_def)
  have c0: "a \<noteq> sender \<Longrightarrow> count_list (ownerCredits s a) i = 0" for a
    using assms(1) f by (simp add: inv_owner_def)
  show ?thesis
    unfolding inv_owner_def
  proof (intro allI)
    fix a j
    show "count_list (ownerCredits s' a) j =
      (if c_id (credits s' j) \<noteq> 0 \<and> c_owner (credits s' j) = a then 1 else 0)"
    proof (cases "j = i")
      case True
      then show ?thesis using f c1 c0 [of a] c0 [of to]
        by (auto simp: Let_def count_list_removeFromArray)
    next
      case False
      then show ?thesis using f assms(1)
        by (auto simp: Let_def count_list_removeFromArray inv_owner_def)
    qed
  qed
qed

lemma inv_owner_step:
  assumes "inv_owner s" and "inv_ids s" and "exec s sender ts c = Inr s'"
  shows "inv_owner s'"
proof (cases c)
  case (SetCertifier a)
  with assms show ?thesis by (auto dest!: setCertifier_Inr intro: inv_owner_same)
next
  case (RegisterAuditor a n acc)
  with assms show ?thesis by (auto dest!: registerAuditor_Inr intro: inv_owner_same)
next
  case (DeactivateAuditor a)
  with assms show ?thesis by (auto dest!: deactivateAuditor_Inr intro: inv_owner_same)
next
  case (SuspendCredit i r)
  with assms(3) have "suspendCredit s sender i r = Inr s'" by simp
  from suspendCredit_Inr [OF this] show ?thesis
    by (intro inv_owner_same [OF assms(1)]) auto
next
  case (IssueCredit to p pn am pd rs loc ci md)
  with assms show ?thesis by (auto intro: inv_owner_issue)
next
  case (VerifyCredit i st vn)
  with assms(3) have "verifyCredit s sender ts i st vn = Inr s'" by simp
  from verifyCredit_Inr [OF this] show ?thesis
    by (intro inv_owner_same [OF assms(1)]) auto
next
  case (CreateProductionBatch p ids)
  with assms show ?thesis by (auto dest!: createProductionBatch_Inr intro: inv_owner_same)
next
  case (VerifyProductionBatch b)
  with assms show ?thesis by (auto dest!: verifyProductionBatch_Inr intro: inv_owner_same)
next
  case (TransferCredit i to)
  with assms show ?thesis by (auto intro: inv_owner_transfer)
next
  case (RetireCredit i r)
  with assms(3) have "retireCredit s sender ts i r = Inr s'" by simp
  from retireCredit_Inr [OF this] show ?thesis
    by (intro inv_owner_same [OF assms(1)]) auto
qed

lemma reachable_inv_owner: "reachable s \<Longrightarrow> inv_owner s"
proof (induction rule: reachable.induct)
  case (reachable_init deployer)
  show ?case by (rule inv_owner_init)
next
  case (reachable_step s sender ts c s')
  then show ?case using inv_owner_step reachable_inv_ids by blast
qed

lemma inv_producer_init: "inv_producer (constructor d)"
  by (simp add: inv_producer_def constructor_def issued_ids_def)

lemma inv_producer_same:
  assumes "inv_producer s" and "producerCredits s' = producerCredits s"
    and "nextId s' = nextId s"
    and "\<And>i. c_producer (credits s' i) = c_producer (credits s i)"
  shows "inv_producer s'"
  using assms by (simp add: inv_producer_def issued_ids_def)

lemma inv_producer_issue:
  assumes "inv_producer s" and "inv_ids s"
    and "issueCredit s sender ts to p pn am pd rs loc ci md = Inr s'"
  shows "inv_producer s'"
proof -
  note f = issueCredit_Inr [OF assms(3)]
  from assms(2) have pos: "0 < nextId s" by (simp add: inv_ids_def)
  from f have b: "unat (nextId s) + 1 < 2 ^ 256" and n: "nextId s' = nextId s + 1"
    by simp_all
  have ids: "issued_ids s' = issued_ids s @ [nextId s]"
    by (rule issued_ids_succ [OF n b pos])
  have old: "i \<in> set (issued_ids s) \<Longrightarrow> credits s' i = credits s i" for i
    using f by (auto simp: set_issued_ids)
  have flt: "filter (\<lambda>i. c_producer (credits s' i) = q) (issued_ids s)
      = filter (\<lambda>i. c_producer (credits s i) = q) (issued_ids s)" for q
    by (rule filter_cong) (simp_all add: old)
  have pc: "producerCredits s' = (producerCredits s)(p := producerCredits s p @ [nextId s])"
    using f by simp
  have newp: "c_producer (credits s' (nextId s)) = p"
    using f by simp
  from assms(1) have inv: "producerCredits s q
      = filter (\<lambda>i. c_producer (credits s i) = q) (issued_ids s)" for q
    by (simp add: inv_producer_def)
  show ?thesis
    unfolding inv_producer_def
  proof
    fix q
    show "producerCredits s' q = filter (\<lambda>i. c_producer (credits s' i) = q) (issued_ids s')"
      by (simp add: ids flt pc newp inv)
  qed
qed

lemma inv_producer_step:
  assumes "inv_producer s" and "inv_ids s" and "exec s sender ts c = Inr s'"
  shows "inv_producer s'"
proof (cases c)
  case (SetCertifier a)
  with assms show ?thesis by (auto dest!: setCertifier_Inr intro: inv_producer_same)
next
  case (RegisterAuditor a n acc)
  with assms show ?thesis by (auto dest!: registerAuditor_Inr intro: inv_producer_same)
next
  case (DeactivateAuditor a)
  with assms show ?thesis by (auto dest!: deactivateAuditor_Inr intro: inv_producer_same)
next
  case (SuspendCredit i r)
  with assms(3) have "suspendCredit s sender i r = Inr s'" by simp
  from suspendCredit_Inr [OF this] show ?thesis
    by (intro inv_producer_same [OF assms(1)]) auto
next
  case (IssueCredit to p pn am pd rs loc ci md)
  with assms show ?thesis by (auto intro: inv_producer_issue)
next
  case (VerifyCredit i st vn)
  with assms(3) have "verifyCredit s sender ts i st vn = Inr s'" by simp
  from verifyCredit_Inr [OF this] show ?thesis
    by (intro inv_producer_same [OF assms(1)]) auto
next
  case (CreateProductionBatch p ids)
  with assms show ?thesis by (auto dest!: createProductionBatch_Inr intro: inv_producer_same)
next
  case (VerifyProductionBatch b)
  with assms show ?thesis by (auto dest!: verifyProductionBatch_Inr intro: inv_producer_same)
next
  case (TransferCredit i to)
  with assms(3) have "transferCredit s sender i to = Inr s'" by simp
  from transferCredit_Inr [OF this] show ?thesis
    by (intro inv_producer_same [OF assms(1)]) auto
next
  case (RetireCredit i r)
  with assms(3) have "retireCredit s sender ts i r = Inr s'" by simp
  from retireCredit_Inr [OF this] show ?thesis
    by (intro inv_producer_same [OF assms(1)]) auto
qed

lemma reachable_inv_producer: "reachable s \<Longrightarrow> inv_producer s"
proof (induction rule: reachable.induct)
  case (reachable_init deployer)
  show ?case by (rule inv_producer_init)
next
  case (reachable_step s sender ts c s')
  then show ?case using inv_producer_step reachable_inv_ids by blast
qed

subsection \<open>Runs of transactions stay reachable\<close>

lemma reachable_step_fun: "reachable s \<Longrightarrow> reachable (step s tx)"
  by (cases tx) (auto simp: step_def split: sum.splits intro: reachable_step)

lemma reachable_run: "reachable s \<Longrightarrow> reachable (run s txs)"
  unfolding run_def by (induction txs arbitrary: s) (simp_all add: reachable_step_fun)

lemma reachable_run_init: "reachable (run (constructor d) txs)"
  by (rule reachable_run [OF reachable_init])

subsection \<open>Existing credits and their ids\<close>

lemma key_zero_empty: "inv_ids s \<Longrightarrow> c_id (credits s 0) = 0"
  by (simp add: inv_ids_def empty_credit_def)

lemma exists_iff_range:
  "inv_ids s \<Longrightarrow> c_id (credits s i) \<noteq> 0 \<longleftrightarrow> 0 < i \<and> i < nextId s"
proof
  assume "inv_ids s" "c_id (credits s i) \<noteq> 0"
  then show "0 < i \<and> i < nextId s" by (rule exists_in_range)
next
  assume inv: "inv_ids s" and r: "0 < i \<and> i < nextId s"
  then have "c_id (credits s i) = i" unfolding inv_ids_def by presburger
  with r show "c_id (credits s i) \<noteq> 0" by auto
qed

lemma id_is_key: "inv_ids s \<Longrightarrow> c_id (credits s i) \<noteq> 0 \<Longrightarrow> c_id (credits s i) = i"
  using exists_in_range [of s i] unfolding inv_ids_def by presburger

lemma issueCredit_fresh_id:
  assumes "inv_ids s" and "issueCredit s sender ts to p pn am pd rs loc ci md = Inr s'"
  shows "c_id (credits s (nextId s)) = 0 \<and>
         c_id (credits s' (nextId s)) = nextId s \<and>
         unat (nextId s') = unat (nextId s) + 1 \<and>
         (\<forall>i. i \<noteq> nextId s \<longrightarrow> credits s' i = credits s i)"
proof -
  note f = issueCredit_Inr [OF assms(2)]
  have "c_id (credits s (nextId s)) = 0"
    using exists_in_range [OF assms(1), of "nextId s"] by auto
  moreover have "unat (nextId s') = unat (nextId s) + 1" using f by (simp add: unat_succ)
  moreover have "c_id (credits s' (nextId s)) = nextId s" using f by simp
  moreover have "\<forall>i. i \<noteq> nextId s \<longrightarrow> credits s' i = credits s i" using f by simp
  ultimately show ?thesis by blast
qed

lemma exec_keeps_ids:
  assumes "inv_ids s" and ex: "exec s sender ts c = Inr s'" and "c_id (credits s i) \<noteq> 0"
  shows "c_id (credits s' i) = c_id (credits s i)"
proof -
  have "inv_ids s'" using assms(1) ex by (rule inv_ids_step)
  moreover have "nextId s \<le> nextId s'"
  proof (cases c)
    case (IssueCredit to p pn am pd rs loc ci md)
    with ex have "issueCredit s sender ts to p pn am pd rs loc ci md = Inr s'" by simp
    from issueCredit_fresh_id [OF assms(1) this] show ?thesis
      by (simp add: word_le_nat_alt)
  qed (use ex in \<open>auto dest!: setCertifier_Inr registerAuditor_Inr deactivateAuditor_Inr
      suspendCredit_Inr verifyCredit_Inr createProductionBatch_Inr verifyProductionBatch_Inr
      transferCredit_Inr retireCredit_Inr\<close>)
  moreover have "0 < i \<and> i < nextId s" using assms(1,3) by (rule exists_in_range)
  ultimately have "c_id (credits s' i) = i" unfolding inv_ids_def
    by (metis (no_types, lifting) order_less_le_trans)
  moreover have "c_id (credits s i) = i" using assms(1,3) by (rule id_is_key)
  ultimately show ?thesis by simp
qed

lemma exec_nextId_same:
  assumes ex: "exec s sender ts c = Inr s'"
    and "\<forall>to p pn am pd rs loc ci md. c \<noteq> IssueCredit to p pn am pd rs loc ci md"
  shows "nextId s' = nextId s"
proof (cases c)
  case (IssueCredit to p pn am pd rs loc ci md)
  with assms(2) show ?thesis by blast
qed (use ex in \<open>auto dest!: setCertifier_Inr registerAuditor_Inr deactivateAuditor_Inr
      suspendCredit_Inr verifyCredit_Inr createProductionBatch_Inr verifyProductionBatch_Inr
      transferCredit_Inr retireCredit_Inr\<close>)

subsection \<open>The loop of getTotalCreditsByProducer\<close>

lemma checked_add_ok:
  "unat a + unat b < 2 ^ 256 \<Longrightarrow> checked_add a b = Inr (a + b)"
  unfolding checked_add_def by (rule if_P)

lemma checked_add_overflow:
  "\<not> unat a + unat b < 2 ^ 256 \<Longrightarrow> checked_add a b = Inl ArithmeticPanic"
  unfolding checked_add_def by (rule if_not_P)

lemma active_amounts_Nil: "active_amounts s [] = 0"
  by (simp add: active_amounts_def)

lemma active_amounts_Cons:
  "active_amounts s (i # ids) =
     (if c_status (credits s i) = Active \<and> \<not> c_isRetired (credits s i)
      then unat (c_amount (credits s i)) + active_amounts s ids
      else active_amounts s ids)"
  by (simp add: active_amounts_def)

lemma totalLoop_sum:
  "totalLoop s ids t =
     (if unat t + active_amounts s ids < 2 ^ 256
      then Inr (t + of_nat (active_amounts s ids))
      else Inl ArithmeticPanic)"
proof (induction ids arbitrary: t)
  case Nil
  have "unat t < 2 ^ 256" using unsigned_less [of t] by simp
  then show ?case by (simp add: active_amounts_Nil)
next
  case (Cons i ids)
  define a where "a = c_amount (credits s i)"
  define r where "r = active_amounts s ids"
  show ?case
  proof (cases "c_status (credits s i) = Active \<and> \<not> c_isRetired (credits s i)")
    case False
    then have "totalLoop s (i # ids) t = totalLoop s ids t" by auto
    moreover have "active_amounts s (i # ids) = active_amounts s ids"
      by (simp only: active_amounts_Cons False if_False)
    ultimately show ?thesis using Cons.IH [of t] by simp
  next
    case True
    then have am: "active_amounts s (i # ids) = unat a + r"
      by (simp add: active_amounts_Cons a_def r_def)
    show ?thesis
    proof (cases "unat t + unat a < 2 ^ 256")
      case False
      then have "checked_add t a = Inl ArithmeticPanic" by (rule checked_add_overflow)
      with True have "totalLoop s (i # ids) t = Inl ArithmeticPanic" by (simp add: a_def)
      moreover from False have "\<not> unat t + (unat a + r) < 2 ^ 256" by linarith
      ultimately show ?thesis unfolding am by (simp only: if_False)
    next
      case ok: True
      then have "checked_add t a = Inr (t + a)" by (rule checked_add_ok)
      with True have "totalLoop s (i # ids) t = totalLoop s ids (t + a)" by (simp add: a_def)
      also have "\<dots> = (if unat (t + a) + r < 2 ^ 256 then Inr (t + a + of_nat r)
          else Inl ArithmeticPanic)"
        unfolding r_def by (rule Cons.IH)
      also have "unat (t + a) = unat t + unat a" using ok by (rule unat_plus)
      also have "t + a + of_nat r = t + of_nat (unat a + r)" by simp
      finally show ?thesis unfolding am by (simp only: add.assoc)
    qed
  qed
qed

lemma distinct_issued_ids: "distinct (issued_ids s)"
proof -
  have b: "unat (nextId s) < 2 ^ 256" using unsigned_less [of "nextId s"] by simp
  have "inj_on (of_nat :: nat \<Rightarrow> uint256) {1..<unat (nextId s)}"
  proof (rule inj_onI)
    fix k l
    assume k: "k \<in> {1..<unat (nextId s)}" and l: "l \<in> {1..<unat (nextId s)}"
      and eq: "(of_nat k :: uint256) = of_nat l"
    from k b have "k < 2 ^ 256" by auto
    then have "unat (of_nat k :: uint256) = k" by (simp add: unat_of_nat)
    moreover from l b have "l < 2 ^ 256" by auto
    then have "unat (of_nat l :: uint256) = l" by (simp add: unat_of_nat)
    ultimately show "k = l" using eq by metis
  qed
  then show ?thesis
    unfolding issued_ids_def distinct_map by (simp only: distinct_upt set_upt simp_thms)
qed

lemma active_total_list:
  assumes "reachable s"
  shows "active_total s p = active_amounts s (producerCredits s p)"
proof -
  from assms have ids: "inv_ids s" and prod: "inv_producer s"
    by (rule reachable_inv_ids, rule reachable_inv_producer)
  let ?P = "\<lambda>i. c_producer (credits s i) = p \<and>
     c_status (credits s i) = Active \<and> \<not> c_isRetired (credits s i)"
  from prod have "producerCredits s p
      = filter (\<lambda>i. c_producer (credits s i) = p) (issued_ids s)"
    by (simp add: inv_producer_def)
  then have l: "filter (\<lambda>i. c_status (credits s i) = Active \<and> \<not> c_isRetired (credits s i))
        (producerCredits s p) = filter ?P (issued_ids s)"
    by (simp only: filter_filter)
  have d: "distinct (filter ?P (issued_ids s))" by (simp add: distinct_issued_ids)
  have st: "set (filter ?P (issued_ids s)) = {i. c_id (credits s i) \<noteq> 0 \<and> ?P i}"
  proof (rule set_eqI)
    fix i
    have "i \<in> set (issued_ids s) \<longleftrightarrow> c_id (credits s i) \<noteq> 0"
      unfolding set_issued_ids by (rule exists_iff_range [OF ids, symmetric])
    then show "i \<in> set (filter ?P (issued_ids s)) \<longleftrightarrow>
        i \<in> {i. c_id (credits s i) \<noteq> 0 \<and> ?P i}"
      by (simp only: set_filter mem_Collect_eq)
  qed
  have "active_amounts s (producerCredits s p)
      = sum_list (map (\<lambda>i. unat (c_amount (credits s i))) (filter ?P (issued_ids s)))"
    unfolding active_amounts_def l by (rule refl)
  also have "\<dots> = (\<Sum>i\<in>set (filter ?P (issued_ids s)). unat (c_amount (credits s i)))"
    using d by (rule sum_list_distinct_conv_sum_set)
  also have "\<dots> = active_total s p"
    unfolding st active_total_def by (rule refl)
  finally show ?thesis by (rule sym)
qed

subsection \<open>The loop of createProductionBatch\<close>

lemma batchTotal_sum:
  assumes "\<forall>i\<in>set ids. c_producer (credits s i) = p \<and>
     c_verificationStatus (credits s i) = Verified"
  shows "batchTotal s p ids t =
     (if unat t + sum_list (map (\<lambda>i. unat (c_amount (credits s i))) ids) < 2 ^ 256
      then Inr (t + of_nat (sum_list (map (\<lambda>i. unat (c_amount (credits s i))) ids)))
      else Inl ArithmeticPanic)"
  using assms
proof (induction ids arbitrary: t)
  case Nil
  have "unat t < 2 ^ 256" using unsigned_less [of t] by simp
  then show ?case by simp
next
  case (Cons i ids)
  define a where "a = c_amount (credits s i)"
  define r where "r = sum_list (map (\<lambda>i. unat (c_amount (credits s i))) ids)"
  from Cons.prems have ok_i: "c_producer (credits s i) = p"
    "c_verificationStatus (credits s i) = Verified"
    and rest: "\<forall>i\<in>set ids. c_producer (credits s i) = p \<and>
     c_verificationStatus (credits s i) = Verified"
    by simp_all
  have sm: "sum_list (map (\<lambda>i. unat (c_amount (credits s i))) (i # ids)) = unat a + r"
    by (simp add: a_def r_def)
  show ?case
  proof (cases "unat t + unat a < 2 ^ 256")
    case False
    then have "checked_add t a = Inl ArithmeticPanic" by (rule checked_add_overflow)
    with ok_i have "batchTotal s p (i # ids) t = Inl ArithmeticPanic" by (simp add: a_def)
    moreover from False have "\<not> unat t + (unat a + r) < 2 ^ 256" by linarith
    ultimately show ?thesis unfolding sm by (simp only: if_False)
  next
    case True
    then have "checked_add t a = Inr (t + a)" by (rule checked_add_ok)
    with ok_i have "batchTotal s p (i # ids) t = batchTotal s p ids (t + a)"
      by (simp add: a_def)
    also have "\<dots> = (if unat (t + a) + r < 2 ^ 256 then Inr (t + a + of_nat r)
          else Inl ArithmeticPanic)"
      unfolding r_def by (rule Cons.IH [OF rest])
    also have "unat (t + a) = unat t + unat a" using True by (rule unat_plus)
    also have "t + a + of_nat r = t + of_nat (unat a + r)" by simp
    finally show ?thesis unfolding sm by (simp only: add.assoc)
  qed
qed

subsection \<open>Verification status along runs\<close>

lemma missing_is_empty: "inv_ids s \<Longrightarrow> c_id (credits s i) = 0 \<Longrightarrow> credits s i = empty_credit"
  using exists_iff_range [of s i] unfolding inv_ids_def by metis

lemma vstatus_step:
  assumes inv: "inv_ids s" and ex: "exec s sender ts c = Inr s'"
    and np: "c_verificationStatus (credits s i) \<noteq> Pending"
  shows "c_verificationStatus (credits s' i) = c_verificationStatus (credits s i)"
proof (cases c)
  case (IssueCredit to p pn am pd rs loc ci md)
  with ex have iss: "issueCredit s sender ts to p pn am pd rs loc ci md = Inr s'" by simp
  note f = issueCredit_fresh_id [OF inv iss]
  then have "credits s (nextId s) = empty_credit" using missing_is_empty [OF inv] by blast
  then have "c_verificationStatus (credits s (nextId s)) = Pending"
    by (simp add: empty_credit_def)
  with np have "i \<noteq> nextId s" by auto
  with f show ?thesis by simp
next
  case (VerifyCredit j st vn)
  with ex have "verifyCredit s sender ts j st vn = Inr s'" by simp
  from verifyCredit_Inr [OF this] np show ?thesis by auto
qed (use ex in \<open>auto dest!: setCertifier_Inr registerAuditor_Inr deactivateAuditor_Inr
      suspendCredit_Inr createProductionBatch_Inr verifyProductionBatch_Inr
      transferCredit_Inr retireCredit_Inr\<close>)

lemma run_Cons: "run s (tx # txs) = run (step s tx) txs"
  by (simp add: run_def)

lemma vstatus_run:
  assumes "reachable s" and "c_verificationStatus (credits s i) \<noteq> Pending"
  shows "c_verificationStatus (credits (run s txs) i) = c_verificationStatus (credits s i)"
  using assms
proof (induction txs arbitrary: s)
  case Nil
  show ?case by (simp add: run_def)
next
  case (Cons tx txs)
  obtain sender ts c where tx: "tx = (sender, ts, c)" by (cases tx)
  have st: "c_verificationStatus (credits (step s tx) i) = c_verificationStatus (credits s i)"
  proof (cases "exec s sender ts c")
    case (Inl e)
    then show ?thesis by (simp add: step_def tx)
  next
    case (Inr s')
    from vstatus_step [OF reachable_inv_ids [OF Cons.prems(1)] Inr Cons.prems(2)] Inr
    show ?thesis by (simp add: step_def tx)
  qed
  have "reachable (step s tx)" using Cons.prems(1) by (rule reachable_step_fun)
  from Cons.IH [OF this] st Cons.prems(2) show ?case by (simp add: run_Cons)
qed

subsection \<open>Registered auditors\<close>

lemma inv_auditor_step:
  assumes "inv_auditor s" and ex: "exec s sender ts c = Inr s'"
  shows "inv_auditor s'"
  using assms(1)
  by (cases c) (use ex in \<open>auto simp: inv_auditor_def dest!: setCertifier_Inr
      registerAuditor_Inr deactivateAuditor_Inr suspendCredit_Inr issueCredit_Inr
      verifyCredit_Inr createProductionBatch_Inr verifyProductionBatch_Inr
      transferCredit_Inr retireCredit_Inr split: if_splits\<close>)

lemma reachable_inv_auditor: "reachable s \<Longrightarrow> inv_auditor s"
proof (induction rule: reachable.induct)
  case (reachable_init deployer)
  show ?case by (simp add: inv_auditor_def constructor_def)
next
  case (reachable_step s sender ts c s')
  then show ?case using inv_auditor_step by blast
qed

subsection \<open>Production batches\<close>

text \<open>
  What \<open>verifyProductionBatch\<close> does do: each successful call raises the count of the
  batch by one, and the batch is verified afterwards exactly if the count has reached
  \<open>MIN_VERIFICATION_COUNT\<close>. A verified batch stays verified through every later
  transaction. The count is a count of calls; the callers are not recorded.
\<close>

lemma verifyProductionBatch_flips:
  assumes "verifyProductionBatch s sender b = Inr s'"
  shows "\<not> b_isVerified (productionBatches s b) \<and>
         unat (b_verificationCount (productionBatches s' b)) =
           unat (b_verificationCount (productionBatches s b)) + 1 \<and>
         (b_isVerified (productionBatches s' b) \<longleftrightarrow>
            MIN_VERIFICATION_COUNT \<le> b_verificationCount (productionBatches s' b))"
proof -
  note f = verifyProductionBatch_Inr [OF assms]
  then have "unat (b_verificationCount (productionBatches s b)) + 1 < 2 ^ 256" by simp
  then have "unat (b_verificationCount (productionBatches s b) + 1) =
      unat (b_verificationCount (productionBatches s b)) + 1" by (rule unat_succ)
  with f show ?thesis by auto
qed

lemma inv_batches_step:
  assumes "inv_batches s" and ex: "exec s sender ts c = Inr s'"
  shows "inv_batches s'"
proof (cases c)
  case (CreateProductionBatch p ids)
  with ex have "createProductionBatch s sender p ids = Inr s'" by simp
  from createProductionBatch_Inr [OF this] obtain t where
    b: "unat (nextBatchId s) + 1 < 2 ^ 256" and
    s': "s' = s\<lparr>productionBatches := (productionBatches s)(nextBatchId s :=
                    \<lparr> b_batchId = nextBatchId s, b_producer = p, b_totalAmount = t,
                      b_verificationCount = 1, b_isVerified = False, b_creditIds = ids \<rparr>),
                  nextBatchId := nextBatchId s + 1\<rparr>"
    by blast
  show ?thesis
    using assms(1) unfolding inv_batches_def s'
    by (auto simp: less_succ_iff [OF b])
next
  case (VerifyProductionBatch b)
  with ex have "verifyProductionBatch s sender b = Inr s'" by simp
  from verifyProductionBatch_Inr [OF this] assms(1) show ?thesis
    by (auto simp: inv_batches_def split: if_splits)
qed (use assms in \<open>auto simp: inv_batches_def dest!: setCertifier_Inr
      registerAuditor_Inr deactivateAuditor_Inr suspendCredit_Inr issueCredit_Inr
      verifyCredit_Inr transferCredit_Inr retireCredit_Inr\<close>)

lemma reachable_inv_batches: "reachable s \<Longrightarrow> inv_batches s"
proof (induction rule: reachable.induct)
  case (reachable_init deployer)
  show ?case by (simp add: inv_batches_def constructor_def empty_batch_def)
next
  case (reachable_step s sender ts c s')
  then show ?case using inv_batches_step by blast
qed

lemma batch_verified_step:
  assumes inv: "inv_batches s" and ex: "exec s sender ts c = Inr s'"
    and v: "b_isVerified (productionBatches s b)"
  shows "b_isVerified (productionBatches s' b)"
proof (cases c)
  case (CreateProductionBatch p ids)
  with ex have "createProductionBatch s sender p ids = Inr s'" by simp
  from createProductionBatch_Inr [OF this] obtain t where
    s': "s' = s\<lparr>productionBatches := (productionBatches s)(nextBatchId s :=
                    \<lparr> b_batchId = nextBatchId s, b_producer = p, b_totalAmount = t,
                      b_verificationCount = 1, b_isVerified = False, b_creditIds = ids \<rparr>),
                  nextBatchId := nextBatchId s + 1\<rparr>"
    by blast
  from inv v have "b < nextBatchId s" by (simp add: inv_batches_def)
  then have "b \<noteq> nextBatchId s" by auto
  with v show ?thesis unfolding s' by simp
next
  case (VerifyProductionBatch b')
  with ex have "verifyProductionBatch s sender b' = Inr s'" by simp
  from verifyProductionBatch_Inr [OF this] v show ?thesis by (auto split: if_splits)
qed (use ex v in \<open>auto dest!: setCertifier_Inr
      registerAuditor_Inr deactivateAuditor_Inr suspendCredit_Inr issueCredit_Inr
      verifyCredit_Inr transferCredit_Inr retireCredit_Inr\<close>)

lemma batch_verified_run:
  assumes "reachable s" and "b_isVerified (productionBatches s b)"
  shows "b_isVerified (productionBatches (run s txs) b)"
  using assms
proof (induction txs arbitrary: s)
  case Nil
  then show ?case by (simp add: run_def)
next
  case (Cons tx txs)
  obtain sender ts c where tx: "tx = (sender, ts, c)" by (cases tx)
  have st: "b_isVerified (productionBatches (step s tx) b)"
  proof (cases "exec s sender ts c")
    case (Inl e)
    with Cons.prems(2) show ?thesis by (simp add: step_def tx)
  next
    case (Inr s')
    from batch_verified_step [OF reachable_inv_batches [OF Cons.prems(1)] Inr Cons.prems(2)] Inr
    show ?thesis by (simp add: step_def tx)
  qed
  have "reachable (step s tx)" using Cons.prems(1) by (rule reachable_step_fun)
  from Cons.IH [OF this st] show ?case by (simp add: run_Cons)
qed

section \<open>Evaluating concrete runs\<close>

lemmas op_defs = run_def step_def constructor_def setCertifier_def registerAuditor_def
  deactivateAuditor_def suspendCredit_def issueCredit_def verifyCredit_def
  createProductionBatch_def verifyProductionBatch_def transferCredit_def retireCredit_def
  onlyAuditor_def checked_add_def MAX_CARBON_INTENSITY_def MIN_VERIFICATION_COUNT_def
  removeFromArray_def removeFrom.simps empty_credit_def empty_auditor_def empty_batch_def
  Let_def

lemmas demo_defs = demo_txs_def demo_issued_def demo_verified_def demo_retired_def
  demo_suspended_def demo_huge_def demo_deactivated_def demo_batch_def
  demo_self_verified_def demo_issue_attempts_def demo_transferred_def

lemma reachable_demo_issued: "reachable demo_issued"
  unfolding demo_issued_def by (rule reachable_run_init)

lemma reachable_demo_verified: "reachable demo_verified"
  unfolding demo_verified_def by (rule reachable_run [OF reachable_demo_issued])

lemma reachable_demo_retired: "reachable demo_retired"
  unfolding demo_retired_def by (rule reachable_run [OF reachable_demo_verified])

lemma reachable_demo_suspended: "reachable demo_suspended"
  unfolding demo_suspended_def by (rule reachable_run [OF reachable_demo_retired])

lemma reachable_demo_huge: "reachable demo_huge"
  unfolding demo_huge_def by (rule reachable_run_init)

lemma reachable_demo_issue_attempts: "reachable demo_issue_attempts"
  unfolding demo_issue_attempts_def by (rule reachable_run_init)

lemma reachable_demo_transferred: "reachable demo_transferred"
  unfolding demo_transferred_def by (rule reachable_run [OF reachable_demo_verified])

section \<open>The claims\<close>

text \<open>
  C1. The claim asks for a quorum of distinct auditors, as the comment of
  \<open>MIN_VERIFICATION_COUNT\<close> does ("Minimum auditors needed"). The contract counts calls:
  auditor 2, the only registered auditor, creates batch 1 (count 1, not verified) and
  then verifies it itself, which raises the count to 2 and marks the batch verified.
\<close>

theorem single_auditor_reaches_quorum:
  "demo_batch = run demo_verified [(2, 120, CreateProductionBatch 3 [1])] \<and>
   b_batchId (productionBatches demo_batch 1) = 1 \<and>
   b_verificationCount (productionBatches demo_batch 1) = 1 \<and>
   \<not> b_isVerified (productionBatches demo_batch 1) \<and>
   verifyProductionBatch demo_batch 2 1 = Inr demo_self_verified \<and>
   b_verificationCount (productionBatches demo_self_verified 1) = 2 \<and>
   b_isVerified (productionBatches demo_self_verified 1)"
  by (simp add: demo_batch_def demo_self_verified_def demo_defs op_defs)

text \<open>
  C2 (as amended). In every reachable state and for every credit: lifecycle status Retired
  implies \<open>isRetired\<close>, and \<open>isRetired\<close> implies that the status is Retired or Suspended.
  Every successful operation preserves the equivalence of \<open>isRetired\<close> and status Retired
  for a credit, except \<open>suspendCredit\<close> applied to that credit when it is retired: that
  call sets the status to Suspended and leaves \<open>isRetired\<close> true.
\<close>

theorem retired_flag_lifecycle:
  assumes "reachable s"
  shows "(c_status (credits s i) = Retired \<longrightarrow> c_isRetired (credits s i)) \<and>
         (c_isRetired (credits s i) \<longrightarrow>
            c_status (credits s i) = Retired \<or> c_status (credits s i) = Suspended) \<and>
         (\<forall>sender ts c s'. exec s sender ts c = Inr s' \<and>
            \<not> (c_isRetired (credits s i) \<and> (\<exists>r. c = SuspendCredit i r)) \<and>
            (c_isRetired (credits s i) \<longleftrightarrow> c_status (credits s i) = Retired) \<longrightarrow>
            (c_isRetired (credits s' i) \<longleftrightarrow> c_status (credits s' i) = Retired))"
proof (intro conjI allI impI)
  from assms have inv: "inv_retired s" by (rule reachable_inv_retired)
  then show "c_status (credits s i) = Retired \<Longrightarrow> c_isRetired (credits s i)"
    by (simp add: inv_retired_def)
  from inv show "c_isRetired (credits s i) \<Longrightarrow>
      c_status (credits s i) = Retired \<or> c_status (credits s i) = Suspended"
    by (cases "c_status (credits s i)") (auto simp: inv_retired_def)
next
  fix sender ts c s'
  assume h: "exec s sender ts c = Inr s' \<and>
            \<not> (c_isRetired (credits s i) \<and> (\<exists>r. c = SuspendCredit i r)) \<and>
            (c_isRetired (credits s i) \<longleftrightarrow> c_status (credits s i) = Retired)"
  show "c_isRetired (credits s' i) \<longleftrightarrow> c_status (credits s' i) = Retired"
  proof (cases c)
    case (SetCertifier a)
    with h show ?thesis by (auto dest!: setCertifier_Inr)
  next
    case (RegisterAuditor a n acc)
    with h show ?thesis by (auto dest!: registerAuditor_Inr)
  next
    case (DeactivateAuditor a)
    with h show ?thesis by (auto dest!: deactivateAuditor_Inr)
  next
    case (SuspendCredit j r)
    with h show ?thesis by (auto dest!: suspendCredit_Inr split: if_splits)
  next
    case (IssueCredit to p pn am pd rs loc ci md)
    with h show ?thesis by (auto dest!: issueCredit_Inr split: if_splits)
  next
    case (VerifyCredit j st vn)
    with h show ?thesis by (auto dest!: verifyCredit_Inr split: if_splits)
  next
    case (CreateProductionBatch p ids)
    with h show ?thesis by (auto dest!: createProductionBatch_Inr)
  next
    case (VerifyProductionBatch b)
    with h show ?thesis by (auto dest!: verifyProductionBatch_Inr)
  next
    case (TransferCredit j to)
    with h show ?thesis by (auto dest!: transferCredit_Inr split: if_splits)
  next
    case (RetireCredit j r)
    with h show ?thesis by (auto dest!: retireCredit_Inr split: if_splits)
  qed
qed

theorem retired_flag_lifecycle_witness:
  "reachable demo_retired \<and> c_status (credits demo_retired 1) = Retired \<and>
   c_isRetired (credits demo_retired 1)"
proof -
  have st: "c_status (credits demo_retired 1) = Retired" by (simp add: demo_defs op_defs)
  from retired_flag_lifecycle [OF reachable_demo_retired, of 1] st
  have "c_isRetired (credits demo_retired 1)" by blast
  with reachable_demo_retired st show ?thesis by blast
qed

text \<open>
  C2 as stated fails: after issue, verification and retirement, the regulator suspends
  credit 1. The credit is then retired (\<open>isRetired\<close>) with status Suspended.
\<close>

theorem retired_iff_status_counterexample:
  "reachable demo_suspended \<and> c_id (credits demo_suspended 1) \<noteq> 0 \<and>
   c_isRetired (credits demo_suspended 1) \<and>
   c_status (credits demo_suspended 1) = Suspended \<and>
   \<not> (c_isRetired (credits demo_suspended 1) \<longleftrightarrow>
      c_status (credits demo_suspended 1) = Retired)"
proof -
  have "c_id (credits demo_suspended 1) \<noteq> 0" by (simp add: demo_defs op_defs)
  moreover have "c_isRetired (credits demo_suspended 1)" by (simp add: demo_defs op_defs)
  moreover have "c_status (credits demo_suspended 1) = Suspended"
    by (simp add: demo_defs op_defs)
  ultimately show ?thesis using reachable_demo_suspended by simp
qed

text \<open>
  C3. For a caller that is the certifier or the regulator, and as long as the id counter
  is not exhausted (\<open>nextId < 2^256 - 1\<close>; the checked \<open>nextId++\<close> reverts there, after
  \<open>2^256 - 2\<close> issued credits), \<open>issueCredit\<close> fails exactly when \<open>to\<close> is the zero
  address, \<open>producer\<close> is the zero address, the amount is 0 (a \<open>uint256\<close> is never
  negative), the carbon intensity exceeds 50 or the production date lies after the block
  timestamp. With the other arguments valid, carbon intensity 50 succeeds and a production
  date equal to the timestamp succeeds. After any failed call the store is as before.
\<close>

theorem issueCredit_fails_iff:
  assumes "sender = certifier s \<or> sender = regulator s"
    and "unat (nextId s) < 2 ^ 256 - 1"
  shows "((\<exists>e. issueCredit s sender ts to p pn am pd rs loc ci md = Inl e) \<longleftrightarrow>
            to = 0 \<or> p = 0 \<or> am \<le> 0 \<or> 50 < ci \<or> ts < pd) \<and>
         (to \<noteq> 0 \<and> p \<noteq> 0 \<and> 0 < am \<and> pd \<le> ts \<longrightarrow>
            (\<exists>s'. issueCredit s sender ts to p pn am pd rs loc 50 md = Inr s')) \<and>
         (to \<noteq> 0 \<and> p \<noteq> 0 \<and> 0 < am \<and> ci \<le> 50 \<longrightarrow>
            (\<exists>s'. issueCredit s sender ts to p pn am ts rs loc ci md = Inr s')) \<and>
         ((\<exists>e. issueCredit s sender ts to p pn am pd rs loc ci md = Inl e) \<longrightarrow>
            step s (sender, ts, IssueCredit to p pn am pd rs loc ci md) = s)"
proof -
  from assms(2) have ok: "unat (nextId s) + unat (1::uint256) < 2 ^ 256" by simp
  have nz: "am \<le> 0 \<longleftrightarrow> \<not> 0 < am" by (simp add: word_le_nat_alt word_less_nat_alt)
  show ?thesis
    using assms(1) ok
    by (auto simp: issueCredit_def Let_def checked_add_def MAX_CARBON_INTENSITY_def
        step_def not_le not_less nz)
qed

theorem issueCredit_fails_iff_witness:
  "(1 = certifier (constructor 1) \<or> 1 = regulator (constructor 1)) \<and>
   unat (nextId (constructor 1)) < 2 ^ 256 - 1 \<and>
   (\<exists>s'. issueCredit (constructor 1) 1 100 3 4 ''P'' 1000 100 ''solar'' ''CA'' 50 ''m''
      = Inr s') \<and>
   (\<exists>e. issueCredit (constructor 1) 1 100 3 4 ''P'' 1000 100 ''solar'' ''CA'' 51 ''m''
      = Inl e) \<and>
   (\<exists>e. issueCredit (constructor 1) 1 100 3 4 ''P'' 1000 101 ''solar'' ''CA'' 50 ''m''
      = Inl e) \<and>
   step (constructor 1) (1, 100, IssueCredit 3 4 ''P'' 1000 101 ''solar'' ''CA'' 50 ''m'')
      = constructor 1"
proof -
  have a: "1 = certifier (constructor 1) \<or> 1 = regulator (constructor 1)"
    by (simp add: constructor_def)
  have b: "unat (nextId (constructor 1)) < 2 ^ 256 - 1"
    by (simp add: constructor_def)
  note t = issueCredit_fails_iff [OF a b]
  have "\<exists>s'. issueCredit (constructor 1) 1 100 3 4 ''P'' 1000 100 ''solar'' ''CA'' 50 ''m''
      = Inr s'"
    using t [of 100 3 4 "''P''" 1000 100 "''solar''" "''CA''" 50 "''m''"]
    by (cases "issueCredit (constructor 1) 1 100 3 4 ''P'' 1000 100 ''solar'' ''CA'' 50 ''m''")
      simp_all
  moreover have c: "\<exists>e. issueCredit (constructor 1) 1 100 3 4 ''P'' 1000 100 ''solar'' ''CA'' 51 ''m''
      = Inl e"
    using t [of 100 3 4 "''P''" 1000 100 "''solar''" "''CA''" 51 "''m''"] by simp
  moreover have d: "\<exists>e. issueCredit (constructor 1) 1 100 3 4 ''P'' 1000 101 ''solar'' ''CA'' 50 ''m''
      = Inl e"
    using t [of 100 3 4 "''P''" 1000 101 "''solar''" "''CA''" 50 "''m''"] by simp
  moreover have "step (constructor 1)
      (1, 100, IssueCredit 3 4 ''P'' 1000 101 ''solar'' ''CA'' 50 ''m'') = constructor 1"
    using t [of 100 3 4 "''P''" 1000 101 "''solar''" "''CA''" 50 "''m''"] d by blast
  ultimately show ?thesis using a b by blast
qed

text \<open>
  C4 (as amended). Once a successful \<open>verifyCredit\<close> has set a credit's verification
  status to Verified or Rejected, the status keeps that value through every later run of
  transactions, and every later \<open>verifyCredit\<close> on the same id by an active auditor
  fails, whatever the auditor and the decision: with "Credit already verified" while
  the credit is not retired, and with "Credit has been retired" once it is retired,
  the \<open>notRetired\<close> guard being checked first.
\<close>

theorem verification_is_final:
  assumes "reachable s" and "verifyCredit s auditor ts i decision vn = Inr s1"
    and "decision \<noteq> Pending"
  shows "c_verificationStatus (credits (run s1 txs) i) = decision \<and>
         (\<forall>a t d n. onlyAuditor (run s1 txs) a \<longrightarrow>
            verifyCredit (run s1 txs) a t i d n =
              Inl (if c_isRetired (credits (run s1 txs) i) then CreditRetired
                   else CreditAlreadyVerified))"
proof -
  note f = verifyCredit_Inr [OF assms(2)]
  have r1: "reachable s1"
    using assms(1,2) reachable_step [of s auditor ts "VerifyCredit i decision vn" s1] by simp
  from f have v1: "c_verificationStatus (credits s1 i) = decision" by simp
  from f have e1: "c_id (credits s1 i) \<noteq> 0" by simp
  have r2: "reachable (run s1 txs)" using r1 by (rule reachable_run)
  have v2: "c_verificationStatus (credits (run s1 txs) i) = decision"
    using vstatus_run [OF r1, of i txs] v1 assms(3) by simp
  have e2: "c_id (credits (run s1 txs) i) \<noteq> 0"
  proof
    assume "c_id (credits (run s1 txs) i) = 0"
    then have "credits (run s1 txs) i = empty_credit"
      by (rule missing_is_empty [OF reachable_inv_ids [OF r2]])
    then have "c_verificationStatus (credits (run s1 txs) i) = Pending"
      by (simp add: empty_credit_def)
    with v2 assms(3) show False by simp
  qed
  from v2 e2 assms(3) show ?thesis by (simp add: verifyCredit_def)
qed

theorem verification_is_final_witness:
  "reachable demo_issued \<and>
   verifyCredit demo_issued 2 110 1 Verified ''ok'' = Inr demo_verified \<and>
   c_verificationStatus (credits (run demo_verified [(3, 120, TransferCredit 1 5)]) 1)
     = Verified \<and>
   onlyAuditor (run demo_verified [(3, 120, TransferCredit 1 5)]) 2 \<and>
   verifyCredit (run demo_verified [(3, 120, TransferCredit 1 5)]) 2 130 1 Rejected ''again''
     = Inl CreditAlreadyVerified"
proof -
  let ?txs = "[(3, 120, TransferCredit 1 5)] :: (address \<times> uint256 \<times> call) list"
  have v: "verifyCredit demo_issued 2 110 1 Verified ''ok'' = Inr demo_verified"
    by (simp add: demo_defs op_defs)
  have d: "Verified \<noteq> Pending" by simp
  note t = verification_is_final [OF reachable_demo_issued v d, of ?txs]
  have a: "onlyAuditor (run demo_verified ?txs) 2" by (simp add: demo_defs op_defs)
  have nr: "\<not> c_isRetired (credits (run demo_verified ?txs) 1)"
    by (simp add: demo_defs op_defs)
  from t have "c_verificationStatus (credits (run demo_verified ?txs) 1) = Verified"
    by (rule conjunct1)
  moreover from t [THEN conjunct2, THEN spec, THEN spec, THEN spec, THEN spec, THEN mp, OF a]
  have "verifyCredit (run demo_verified ?txs) 2 130 1 Rejected ''again''
     = Inl CreditAlreadyVerified"
    using nr by simp
  ultimately show ?thesis using reachable_demo_issued v a by blast
qed

text \<open>
  C4 as stated fails on the error: credit 1 is verified and then retired by its owner;
  a further \<open>verifyCredit\<close> by the active auditor 2 fails with "Credit has been retired",
  not with "Credit already verified".
\<close>

theorem verifyCredit_after_retire_counterexample:
  "verifyCredit demo_issued 2 110 1 Verified ''ok'' = Inr demo_verified \<and>
   demo_retired = run demo_verified [(3, 120, RetireCredit 1 ''offset'')] \<and>
   onlyAuditor demo_retired 2 \<and>
   c_verificationStatus (credits demo_retired 1) = Verified \<and>
   verifyCredit demo_retired 2 130 1 Rejected ''again'' = Inl CreditRetired \<and>
   verifyCredit demo_retired 2 130 1 Rejected ''again'' \<noteq> Inl CreditAlreadyVerified"
proof -
  have "verifyCredit demo_issued 2 110 1 Verified ''ok'' = Inr demo_verified"
    by (simp add: demo_defs op_defs)
  moreover have "onlyAuditor demo_retired 2" by (simp add: demo_defs op_defs)
  moreover have "c_verificationStatus (credits demo_retired 1) = Verified"
    by (simp add: demo_defs op_defs)
  moreover have "verifyCredit demo_retired 2 130 1 Rejected ''again'' = Inl CreditRetired"
    by (simp add: demo_defs op_defs)
  ultimately show ?thesis by (simp add: demo_retired_def)
qed

text \<open>
  C5. Credit identifiers start at 1 and are handed out in sequence: in every reachable
  state the existing credits are exactly those at the keys \<open>1, ..., nextId - 1\<close>, each
  stored under its own id, and key 0 never holds a credit. A successful \<open>issueCredit\<close>
  uses the id \<open>nextId\<close>, which no credit had before, and moves \<open>nextId\<close> up by exactly
  one (without wrap-around); it leaves every other credit as it was. A failed
  \<open>issueCredit\<close> leaves the store, and so \<open>nextId\<close>, unchanged. No other operation changes
  \<open>nextId\<close>, and no operation changes the id of an existing credit.
\<close>

theorem credit_ids_sequential:
  assumes "reachable s"
  shows "nextId (constructor deployer) = 1 \<and>
         c_id (credits s 0) = 0 \<and>
         (\<forall>i. c_id (credits s i) \<noteq> 0 \<longleftrightarrow> 0 < i \<and> i < nextId s) \<and>
         (\<forall>i. c_id (credits s i) \<noteq> 0 \<longrightarrow> c_id (credits s i) = i) \<and>
         (\<forall>sender ts to p pn am pd rs loc ci md s'.
            issueCredit s sender ts to p pn am pd rs loc ci md = Inr s' \<longrightarrow>
              c_id (credits s (nextId s)) = 0 \<and>
              c_id (credits s' (nextId s)) = nextId s \<and>
              unat (nextId s') = unat (nextId s) + 1 \<and>
              (\<forall>i. i \<noteq> nextId s \<longrightarrow> credits s' i = credits s i)) \<and>
         (\<forall>sender ts to p pn am pd rs loc ci md e.
            issueCredit s sender ts to p pn am pd rs loc ci md = Inl e \<longrightarrow>
              step s (sender, ts, IssueCredit to p pn am pd rs loc ci md) = s) \<and>
         (\<forall>sender ts c s'. exec s sender ts c = Inr s' \<longrightarrow>
              (\<forall>i. c_id (credits s i) \<noteq> 0 \<longrightarrow> c_id (credits s' i) = c_id (credits s i)) \<and>
              ((\<forall>to p pn am pd rs loc ci md. c \<noteq> IssueCredit to p pn am pd rs loc ci md)
                 \<longrightarrow> nextId s' = nextId s))"
proof -
  from assms have inv: "inv_ids s" by (rule reachable_inv_ids)
  show ?thesis
  proof (intro conjI)
    show "nextId (constructor deployer) = 1" by (simp add: constructor_def)
    show "c_id (credits s 0) = 0" by (rule key_zero_empty [OF inv])
    show "\<forall>i. c_id (credits s i) \<noteq> 0 \<longleftrightarrow> 0 < i \<and> i < nextId s"
      by (intro allI) (rule exists_iff_range [OF inv])
    show "\<forall>i. c_id (credits s i) \<noteq> 0 \<longrightarrow> c_id (credits s i) = i"
      by (intro allI impI) (rule id_is_key [OF inv])
    show "\<forall>sender ts to p pn am pd rs loc ci md s'.
            issueCredit s sender ts to p pn am pd rs loc ci md = Inr s' \<longrightarrow>
              c_id (credits s (nextId s)) = 0 \<and>
              c_id (credits s' (nextId s)) = nextId s \<and>
              unat (nextId s') = unat (nextId s) + 1 \<and>
              (\<forall>i. i \<noteq> nextId s \<longrightarrow> credits s' i = credits s i)"
      by (intro allI impI) (rule issueCredit_fresh_id [OF inv])
    show "\<forall>sender ts to p pn am pd rs loc ci md e.
            issueCredit s sender ts to p pn am pd rs loc ci md = Inl e \<longrightarrow>
              step s (sender, ts, IssueCredit to p pn am pd rs loc ci md) = s"
      by (simp add: step_def)
    show "\<forall>sender ts c s'. exec s sender ts c = Inr s' \<longrightarrow>
              (\<forall>i. c_id (credits s i) \<noteq> 0 \<longrightarrow> c_id (credits s' i) = c_id (credits s i)) \<and>
              ((\<forall>to p pn am pd rs loc ci md. c \<noteq> IssueCredit to p pn am pd rs loc ci md)
                 \<longrightarrow> nextId s' = nextId s)"
    proof (intro allI impI conjI)
      fix sender ts c s' i
      assume "exec s sender ts c = Inr s'" "c_id (credits s i) \<noteq> 0"
      then show "c_id (credits s' i) = c_id (credits s i)" by (rule exec_keeps_ids [OF inv])
    next
      fix sender ts c s'
      assume "exec s sender ts c = Inr s'"
        "\<forall>to p pn am pd rs loc ci md. c \<noteq> IssueCredit to p pn am pd rs loc ci md"
      then show "nextId s' = nextId s" by (rule exec_nextId_same)
    qed
  qed
qed

theorem credit_ids_sequential_witness:
  "reachable demo_issue_attempts \<and> nextId demo_issue_attempts = 3 \<and>
   c_id (credits demo_issue_attempts 0) = 0 \<and>
   c_id (credits demo_issue_attempts 1) = 1 \<and>
   c_id (credits demo_issue_attempts 2) = 2 \<and>
   c_id (credits demo_issue_attempts 3) = 0"
proof -
  have n: "nextId demo_issue_attempts = 3" by (simp add: demo_defs op_defs)
  note t = credit_ids_sequential [OF reachable_demo_issue_attempts, where deployer = 1]
  note z = t [THEN conjunct2, THEN conjunct1]
  note rng = t [THEN conjunct2, THEN conjunct2, THEN conjunct1, THEN spec]
  note key = t [THEN conjunct2, THEN conjunct2, THEN conjunct2, THEN conjunct1, THEN spec, THEN mp]
  have "c_id (credits demo_issue_attempts 1) = 1" using key [of 1] rng [of 1] n by simp
  moreover have "c_id (credits demo_issue_attempts 2) = 2" using key [of 2] rng [of 2] n by simp
  moreover have "c_id (credits demo_issue_attempts 3) = 0" using rng [of 3] n by simp
  ultimately show ?thesis using reachable_demo_issue_attempts n z by blast
qed

text \<open>
  C6. A successful \<open>transferCredit(id, to)\<close> in a reachable state changes the credit only
  in its owner field, which becomes \<open>to\<close> (amount, producer and every other field stay);
  it changes no other credit; the owned-index is the old one with the id removed from the
  old owner's list by \<open>_removeFromArray\<close> (after which the id is no longer in that list,
  and the list has lost nothing else) and then appended to the new owner's list; the lists
  of all other identities, the producer index, the auditor records and flags, the batches,
  the counters and the roles are unchanged.
\<close>

theorem transferCredit_frame:
  assumes "reachable s" and "transferCredit s sender i to = Inr s'"
  shows "credits s' i = (credits s i)\<lparr>c_owner := to\<rparr> \<and>
         c_owner (credits s' i) = to \<and>
         c_amount (credits s' i) = c_amount (credits s i) \<and>
         c_producer (credits s' i) = c_producer (credits s i) \<and>
         (\<forall>j. j \<noteq> i \<longrightarrow> credits s' j = credits s j) \<and>
         ownerCredits s' =
           (let from = c_owner (credits s i);
                oc = (ownerCredits s)(from := removeFromArray (ownerCredits s from) i)
            in oc(to := oc to @ [i])) \<and>
         i \<notin> set (removeFromArray (ownerCredits s (c_owner (credits s i))) i) \<and>
         mset (removeFromArray (ownerCredits s (c_owner (credits s i))) i) =
           mset (ownerCredits s (c_owner (credits s i))) - {#i#} \<and>
         (to \<noteq> c_owner (credits s i) \<longrightarrow>
            i \<notin> set (ownerCredits s' (c_owner (credits s i))) \<and>
            ownerCredits s' to = ownerCredits s to @ [i]) \<and>
         count_list (ownerCredits s' to) i = 1 \<and>
         (\<forall>a. a \<noteq> c_owner (credits s i) \<and> a \<noteq> to \<longrightarrow>
            ownerCredits s' a = ownerCredits s a) \<and>
         producerCredits s' = producerCredits s \<and>
         auditors s' = auditors s \<and> isAuditor s' = isAuditor s \<and>
         productionBatches s' = productionBatches s \<and>
         nextId s' = nextId s \<and> nextBatchId s' = nextBatchId s \<and>
         regulator s' = regulator s \<and> certifier s' = certifier s"
proof -
  note f = transferCredit_Inr [OF assms(2)]
  from f have snd: "sender = c_owner (credits s i)" and ex: "c_id (credits s i) \<noteq> 0"
    by simp_all
  from assms(1) have inv: "inv_owner s" by (rule reachable_inv_owner)
  have c1: "count_list (ownerCredits s sender) i = 1"
    using inv ex snd by (simp add: inv_owner_def)
  have rm: "i \<notin> set (removeFromArray (ownerCredits s sender) i)"
    using c1 by (simp add: count_list_0_iff [symmetric] count_list_removeFromArray)
  have r': "reachable s'"
    using assms reachable_step [of s sender 0 "TransferCredit i to" s'] by simp
  from f have ex': "c_id (credits s' i) \<noteq> 0" and ow': "c_owner (credits s' i) = to"
    by simp_all
  have c1': "count_list (ownerCredits s' to) i = 1"
    using reachable_inv_owner [OF r'] ex' ow' by (simp add: inv_owner_def)
  have oc: "ownerCredits s' =
      (let oc = (ownerCredits s)(sender := removeFromArray (ownerCredits s sender) i)
       in oc(to := oc to @ [i]))"
    using f by simp
  show ?thesis
    unfolding snd [symmetric]
  proof (intro conjI)
    show "ownerCredits s' =
           (let from = sender;
                oc = (ownerCredits s)(from := removeFromArray (ownerCredits s from) i)
            in oc(to := oc to @ [i]))"
      using oc by (simp add: Let_def)
    show "i \<notin> set (removeFromArray (ownerCredits s sender) i)" by (rule rm)
    show "mset (removeFromArray (ownerCredits s sender) i) = mset (ownerCredits s sender) - {#i#}"
      by (rule removeFromArray_mset)
    show "to \<noteq> sender \<longrightarrow>
            i \<notin> set (ownerCredits s' sender) \<and> ownerCredits s' to = ownerCredits s to @ [i]"
      using oc rm by (simp add: Let_def)
    show "count_list (ownerCredits s' to) i = 1" by (rule c1')
    show "\<forall>a. a \<noteq> sender \<and> a \<noteq> to \<longrightarrow> ownerCredits s' a = ownerCredits s a"
      using oc by (simp add: Let_def)
  qed (use f in simp_all)
qed

theorem transferCredit_frame_witness:
  "reachable demo_verified \<and>
   transferCredit demo_verified 3 1 5 =
     Inr (step demo_verified (3, 120, TransferCredit 1 5)) \<and>
   c_owner (credits (step demo_verified (3, 120, TransferCredit 1 5)) 1) = 5 \<and>
   c_amount (credits (step demo_verified (3, 120, TransferCredit 1 5)) 1) = 1000 \<and>
   c_producer (credits (step demo_verified (3, 120, TransferCredit 1 5)) 1) = 3 \<and>
   ownerCredits (step demo_verified (3, 120, TransferCredit 1 5)) 3 = [2] \<and>
   ownerCredits (step demo_verified (3, 120, TransferCredit 1 5)) 5 = [1] \<and>
   producerCredits (step demo_verified (3, 120, TransferCredit 1 5)) 3 = [1, 2]"
proof -
  let ?S = "demo_verified"
  obtain S' where tr: "transferCredit ?S 3 1 5 = Inr S'"
    by (simp add: demo_defs op_defs)
  then have st: "step ?S (3, 120, TransferCredit 1 5) = S'" by (simp add: step_def)
  note t = transferCredit_frame [OF reachable_demo_verified tr]
  have v: "c_owner (credits ?S 1) = 3" "c_amount (credits ?S 1) = 1000"
    "c_producer (credits ?S 1) = 3" "ownerCredits ?S 3 = [1, 2]" "ownerCredits ?S 5 = []"
    "producerCredits ?S 3 = [1, 2]"
    by (simp_all add: demo_defs op_defs)
  from t have "c_owner (credits S' 1) = 5" by blast
  moreover from t v have "c_amount (credits S' 1) = 1000" by simp
  moreover from t v have "c_producer (credits S' 1) = 3" by simp
  moreover from t v have "producerCredits S' 3 = [1, 2]" by simp
  moreover from t v have "ownerCredits S' 5 = [1]" by simp
  moreover have "ownerCredits S' 3 = [2]"
  proof -
    from t have "ownerCredits S' =
           (let from = c_owner (credits ?S 1);
                oc = (ownerCredits ?S)(from := removeFromArray (ownerCredits ?S from) 1)
            in oc(5 := oc 5 @ [1]))" by blast
    then have "ownerCredits S' 3 = removeFromArray [1, 2] 1"
      unfolding Let_def v by simp
    then show ?thesis by (simp add: removeFromArray_def removeFrom.simps)
  qed
  ultimately show ?thesis using reachable_demo_verified tr unfolding st by blast
qed

text \<open>
  C7 (as amended). In every reachable state and for every identity \<open>p\<close>,
  \<open>getTotalCreditsByProducer(p)\<close> returns exactly the sum of the amounts of the existing
  credits with producer \<open>p\<close>, lifecycle status Active and \<open>isRetired\<close> false, whenever that
  sum is below \<open>2^256\<close>; when the sum is \<open>2^256\<close> or more, the call reverts with an
  arithmetic panic. The owner is no part of the sum, so a transfer does not change it.
\<close>

theorem getTotalCreditsByProducer_sum:
  assumes "reachable s"
  shows "getTotalCreditsByProducer s p =
     (if active_total s p < 2 ^ 256 then Inr (of_nat (active_total s p))
      else Inl ArithmeticPanic)"
  unfolding getTotalCreditsByProducer_def totalLoop_sum active_total_list [OF assms]
  by simp

theorem getTotalCreditsByProducer_sum_witness:
  "reachable demo_retired \<and> active_total demo_retired 3 = 500 \<and>
   getTotalCreditsByProducer demo_retired 3 = Inr 500"
proof -
  have pc: "producerCredits demo_retired 3 = [1, 2]" by (simp add: demo_defs op_defs)
  have "active_amounts demo_retired [1, 2] = 500"
    by (simp add: active_amounts_def demo_defs op_defs)
  then have at: "active_total demo_retired 3 = 500"
    by (simp add: active_total_list [OF reachable_demo_retired] pc)
  from getTotalCreditsByProducer_sum [OF reachable_demo_retired, of 3] at
  have "getTotalCreditsByProducer demo_retired 3 = Inr 500" by simp
  with at reachable_demo_retired show ?thesis by blast
qed

text \<open>
  C7 as stated fails: two credits of \<open>2^255\<close> units for one producer are both existing,
  active and not retired; their sum is \<open>2^256\<close>, and the query reverts instead of
  returning it.
\<close>

theorem getTotalCreditsByProducer_counterexample:
  "reachable demo_huge \<and> active_total demo_huge 3 = 2 ^ 256 \<and>
   getTotalCreditsByProducer demo_huge 3 = Inl ArithmeticPanic"
proof -
  have pc: "producerCredits demo_huge 3 = [1, 2]" by (simp add: demo_defs op_defs)
  have "active_amounts demo_huge [1, 2] = 2 ^ 256"
    by (simp add: active_amounts_def demo_defs op_defs)
  then have at: "active_total demo_huge 3 = 2 ^ 256"
    by (simp add: active_total_list [OF reachable_demo_huge] pc)
  have "getTotalCreditsByProducer demo_huge 3 = Inl ArithmeticPanic"
    by (simp add: getTotalCreditsByProducer_def demo_defs op_defs)
  with at reachable_demo_huge show ?thesis by blast
qed

text \<open>
  C8 (as amended). A successful \<open>deactivateAuditor(a)\<close> in a reachable state keeps the
  stored record of \<open>a\<close>, with \<open>isActive\<close> false and the verification count as it was,
  but clears the \<open>isAuditor\<close> flag of \<open>a\<close>. So \<open>getAuditor(a)\<close> fails with
  "Auditor not found", and a following \<open>registerAuditor(a, ...)\<close> by the regulator
  succeeds: it replaces the record, the verification count starting again at 0.
\<close>

theorem deactivateAuditor_unregisters:
  assumes "reachable s" and "deactivateAuditor s sender a = Inr s'"
  shows "auditors s' a = (auditors s a)\<lparr>a_isActive := False\<rparr> \<and>
         a_verificationCount (auditors s' a) = a_verificationCount (auditors s a) \<and>
         \<not> a_isActive (auditors s' a) \<and>
         \<not> isAuditor s' a \<and>
         getAuditor s' a = Inl AuditorNotFound \<and>
         (\<exists>s''. registerAuditor s' (regulator s') a name accreditation = Inr s'' \<and>
            isAuditor s'' a \<and> a_isActive (auditors s'' a) \<and>
            a_name (auditors s'' a) = name \<and>
            a_verificationCount (auditors s'' a) = 0)"
proof -
  note f = deactivateAuditor_Inr [OF assms(2)]
  from assms(1) have "\<not> isAuditor s 0" using reachable_inv_auditor inv_auditor_def by blast
  with f have nz: "a \<noteq> 0" by auto
  from f have na: "\<not> isAuditor s' a" by simp
  have reg: "registerAuditor s' (regulator s') a name accreditation =
      Inr (s'\<lparr>auditors := (auditors s')(a :=
                  \<lparr> a_auditorAddress = a, a_name = name, a_accreditation = accreditation,
                    a_isActive = True, a_verificationCount = 0, a_lastVerification = 0 \<rparr>),
                isAuditor := (isAuditor s')(a := True)\<rparr>)"
    using nz na by (simp add: registerAuditor_def)
  show ?thesis
  proof (intro conjI)
    show "\<exists>s''. registerAuditor s' (regulator s') a name accreditation = Inr s'' \<and>
            isAuditor s'' a \<and> a_isActive (auditors s'' a) \<and>
            a_name (auditors s'' a) = name \<and>
            a_verificationCount (auditors s'' a) = 0"
      unfolding reg by simp
    show "getAuditor s' a = Inl AuditorNotFound" using na by (simp add: getAuditor_def)
  qed (use f in simp_all)
qed

theorem deactivateAuditor_unregisters_witness:
  "reachable demo_verified \<and>
   deactivateAuditor demo_verified 1 2 = Inr demo_deactivated \<and>
   a_verificationCount (auditors demo_deactivated 2) = 1 \<and>
   \<not> a_isActive (auditors demo_deactivated 2) \<and>
   getAuditor demo_deactivated 2 = Inl AuditorNotFound"
proof -
  have d: "deactivateAuditor demo_verified 1 2 = Inr demo_deactivated"
    by (simp add: demo_deactivated_def demo_defs op_defs)
  have c: "a_verificationCount (auditors demo_verified 2) = 1"
    by (simp add: demo_defs op_defs)
  note t = deactivateAuditor_unregisters [OF reachable_demo_verified d, of "''B''" "''ISO''"]
  from t c have "a_verificationCount (auditors demo_deactivated 2) = 1" by simp
  moreover from t have "\<not> a_isActive (auditors demo_deactivated 2)" by blast
  moreover from t have "getAuditor demo_deactivated 2 = Inl AuditorNotFound" by blast
  ultimately show ?thesis using reachable_demo_verified d by blast
qed

text \<open>
  C8 as stated fails: auditor 2 has verified one credit and is deactivated. Fetching the
  auditor then fails, and registering the same identity again succeeds and stores a
  record whose verification count is 0.
\<close>

theorem deactivated_auditor_counterexample:
  "deactivateAuditor demo_verified 1 2 = Inr demo_deactivated \<and>
   a_verificationCount (auditors demo_verified 2) = 1 \<and>
   getAuditor demo_deactivated 2 = Inl AuditorNotFound \<and>
   registerAuditor demo_deactivated 1 2 ''B'' ''ISO'' =
     Inr (step demo_deactivated (1, 130, RegisterAuditor 2 ''B'' ''ISO'')) \<and>
   a_verificationCount
     (auditors (step demo_deactivated (1, 130, RegisterAuditor 2 ''B'' ''ISO'')) 2) = 0"
  by (simp add: demo_deactivated_def demo_defs op_defs getAuditor_def)

text \<open>
  C9 (as amended). \<open>createProductionBatch\<close> has no check for duplicate entries. For an
  active auditor, a non-zero producer and a non-empty list whose entries are all verified
  credits of that producer (and a batch counter that is not exhausted), the call succeeds
  whenever the listed amounts, counted with multiplicity, add up to less than \<open>2^256\<close>;
  the frozen \<open>totalAmount\<close> then counts the amount of each credit as many times as its id
  occurs in the list. When the total reaches \<open>2^256\<close> the call reverts with an arithmetic
  panic.
\<close>

theorem createProductionBatch_duplicates:
  assumes "onlyAuditor s sender" and "p \<noteq> 0" and "ids \<noteq> []"
    and "\<forall>i\<in>set ids. c_producer (credits s i) = p \<and>
           c_verificationStatus (credits s i) = Verified"
    and "unat (nextBatchId s) < 2 ^ 256 - 1"
  shows "if sum_list (map (\<lambda>i. unat (c_amount (credits s i))) ids) < 2 ^ 256
         then \<exists>s'. createProductionBatch s sender p ids = Inr s' \<and>
           b_batchId (productionBatches s' (nextBatchId s)) = nextBatchId s \<and>
           b_creditIds (productionBatches s' (nextBatchId s)) = ids \<and>
           unat (b_totalAmount (productionBatches s' (nextBatchId s))) =
             (\<Sum>i\<in>set ids. count_list ids i * unat (c_amount (credits s i)))
         else createProductionBatch s sender p ids = Inl ArithmeticPanic"
proof -
  define n where "n = sum_list (map (\<lambda>i. unat (c_amount (credits s i))) ids)"
  have bt: "batchTotal s p ids 0 =
      (if n < 2 ^ 256 then Inr (of_nat n) else Inl ArithmeticPanic)"
    using batchTotal_sum [OF assms(4), of 0] by (simp add: n_def)
  from assms(5) have "unat (nextBatchId s) + unat (1::uint256) < 2 ^ 256" by simp
  then have inc: "checked_add (nextBatchId s) 1 = Inr (nextBatchId s + 1)"
    by (rule checked_add_ok)
  have cnt: "n = (\<Sum>i\<in>set ids. count_list ids i * unat (c_amount (credits s i)))"
    unfolding n_def by (rule sum_list_map_eq_sum_count)
  show ?thesis
  proof (cases "n < 2 ^ 256")
    case True
    then have "unat (of_nat n :: uint256) = n" by (simp add: unat_of_nat)
    with True bt inc assms(1-3) cnt show ?thesis
      unfolding n_def [symmetric]
      by (simp add: createProductionBatch_def Let_def)
  next
    case False
    with bt assms(1-3) show ?thesis
      unfolding n_def [symmetric]
      by (simp add: createProductionBatch_def)
  qed
qed

theorem createProductionBatch_duplicates_witness:
  "onlyAuditor demo_verified 2 \<and>
   createProductionBatch demo_verified 2 3 [1, 1, 1] =
     Inr (step demo_verified (2, 120, CreateProductionBatch 3 [1, 1, 1])) \<and>
   b_creditIds (productionBatches
     (step demo_verified (2, 120, CreateProductionBatch 3 [1, 1, 1])) 1) = [1, 1, 1] \<and>
   unat (b_totalAmount (productionBatches
     (step demo_verified (2, 120, CreateProductionBatch 3 [1, 1, 1])) 1)) = 3 * 1000"
proof -
  let ?ids = "[1, 1, 1] :: uint256 list"
  have a: "onlyAuditor demo_verified 2" by (simp add: demo_defs op_defs)
  have b: "(3 :: address) \<noteq> 0" by simp
  have c: "?ids \<noteq> []" by simp
  have d: "\<forall>i\<in>set ?ids. c_producer (credits demo_verified i) = 3 \<and>
           c_verificationStatus (credits demo_verified i) = Verified"
    by (simp add: demo_defs op_defs)
  have nb: "nextBatchId demo_verified = 1" by (simp add: demo_defs op_defs)
  have e: "unat (nextBatchId demo_verified) < 2 ^ 256 - 1" by (simp add: nb)
  have am: "c_amount (credits demo_verified 1) = 1000" by (simp add: demo_defs op_defs)
  have sm: "sum_list (map (\<lambda>i. unat (c_amount (credits demo_verified i))) ?ids) < 2 ^ 256"
    by (simp add: am)
  from createProductionBatch_duplicates [OF a b c d e] sm
  obtain s' where s': "createProductionBatch demo_verified 2 3 ?ids = Inr s'"
    "b_creditIds (productionBatches s' 1) = ?ids"
    "unat (b_totalAmount (productionBatches s' 1)) =
       (\<Sum>i\<in>set ?ids. count_list ?ids i * unat (c_amount (credits demo_verified i)))"
    unfolding nb by auto
  from s'(1) have st: "step demo_verified (2, 120, CreateProductionBatch 3 ?ids) = s'"
    by (simp add: step_def)
  from s'(3) have "unat (b_totalAmount (productionBatches s' 1)) = 3 * 1000"
    by (simp add: am)
  with a s' show ?thesis unfolding st by simp
qed

text \<open>
  C9 as stated fails: credit 1 of \<open>demo_huge\<close> is verified and holds \<open>2^255\<close> units.
  Listed once it makes a batch; listed twice, the checked sum overflows and the call
  reverts.
\<close>

theorem createProductionBatch_duplicates_counterexample:
  "onlyAuditor demo_huge 2 \<and> c_producer (credits demo_huge 1) = 3 \<and>
   c_verificationStatus (credits demo_huge 1) = Verified \<and>
   createProductionBatch demo_huge 2 3 [1] =
     Inr (step demo_huge (2, 120, CreateProductionBatch 3 [1])) \<and>
   createProductionBatch demo_huge 2 3 [1, 1] = Inl ArithmeticPanic"
  by (simp add: demo_defs op_defs)

text \<open>
  C10. In every reachable state the id of every existing credit occurs exactly once in
  the owned-index of the credit's current owner and in no other identity's owned-index.
  Reachable states are closed under all operations, among them \<open>issueCredit\<close>,
  \<open>transferCredit\<close> (also to the current owner), \<open>retireCredit\<close> and \<open>suspendCredit\<close>.
\<close>

theorem owner_index_multiplicity:
  assumes "reachable s" and "c_id (credits s i) \<noteq> 0"
  shows "count_list (ownerCredits s (c_owner (credits s i))) i = 1 \<and>
         (\<forall>a. a \<noteq> c_owner (credits s i) \<longrightarrow> i \<notin> set (ownerCredits s a))"
proof -
  from assms(1) have inv: "inv_owner s" by (rule reachable_inv_owner)
  have "count_list (ownerCredits s (c_owner (credits s i))) i = 1"
    using inv assms(2) by (simp add: inv_owner_def)
  moreover have "i \<notin> set (ownerCredits s a)" if "a \<noteq> c_owner (credits s i)" for a
  proof -
    have "count_list (ownerCredits s a) i = 0"
      using inv that by (simp add: inv_owner_def)
    then show ?thesis by (simp add: count_list_0_iff)
  qed
  ultimately show ?thesis by blast
qed

theorem owner_index_multiplicity_witness:
  "reachable demo_transferred \<and> c_id (credits demo_transferred 1) \<noteq> 0 \<and>
   c_owner (credits demo_transferred 1) = 5 \<and>
   count_list (ownerCredits demo_transferred 5) 1 = 1 \<and>
   1 \<notin> set (ownerCredits demo_transferred 3)"
proof -
  have e: "c_id (credits demo_transferred 1) \<noteq> 0" by (simp add: demo_defs op_defs)
  have ow: "c_owner (credits demo_transferred 1) = 5" by (simp add: demo_defs op_defs)
  note t = owner_index_multiplicity [OF reachable_demo_transferred e]
  from t ow have "count_list (ownerCredits demo_transferred 5) 1 = 1" by simp
  moreover from t [THEN conjunct2, THEN spec, of 3] ow
  have "1 \<notin> set (ownerCredits demo_transferred 3)" by simp
  ultimately show ?thesis using reachable_demo_transferred e ow by blast
qed

end
